theory Spec2Isabelle
  imports Main "HOL-Library.AList"
begin

section \<open>Data model (packages/daemon/src/types.ts)\<close>

text \<open>
  Strings are sequences of code units. Timestamps are the ISO strings produced by
  \<^verbatim>\<open>new Date().toISOString()\<close>; the clock reading is an input \<open>now\<close> of every operation
  that reads it. The identifier returned by \<^verbatim>\<open>nanoid()\<close> is an input \<open>eid\<close> of
  \<^verbatim>\<open>addTranscriptEvent\<close>. An optional field \<^verbatim>\<open>f?: T\<close> is a \<open>T option\<close>.
\<close>

datatype SessionStatus = StatusActive | StatusIdle | StatusError

datatype SessionMode = ModeAgent | ModeChat | ModePlan | ModeDebug | ModeBackground | ModeUnknown

datatype TranscriptEventType = EvMessage | EvDelta | EvToolStart | EvToolEnd | EvStatus

record Instance =
  i_instanceId :: string
  i_app :: string
  i_appVersion :: string
  i_workspaceName :: string
  i_workspacePath :: string
  i_pid :: int
  i_startedAt :: string
  i_lastSeenAt :: string

record Session =
  s_sessionId :: string
  s_instanceId :: string
  s_title :: string
  s_createdAt :: string
  s_status :: SessionStatus
  s_mode :: "SessionMode option"
  s_lastUpdatedAt :: "string option"
  s_contextUsagePercent :: "int option"
  s_totalLinesAdded :: "int option"
  s_totalLinesRemoved :: "int option"
  s_filesChangedCount :: "int option"
  s_subtitle :: "string option"
  s_model :: "string option"

text \<open>
  \<^verbatim>\<open>Partial<Session>\<close>: every key may be absent (\<open>None\<close>). A key of an optional field may
  also be present with the value \<^verbatim>\<open>undefined\<close> (\<open>Some None\<close>), which \<^verbatim>\<open>Object.assign\<close>
  copies and \<^verbatim>\<open>JSON.stringify\<close> leaves out. A required field keeps the type that
  \<^verbatim>\<open>Session\<close> gives it: it is absent or has a value.
\<close>

record SessionUpdates =
  u_sessionId :: "string option"
  u_instanceId :: "string option"
  u_title :: "string option"
  u_createdAt :: "string option"
  u_status :: "SessionStatus option"
  u_mode :: "SessionMode option option"
  u_lastUpdatedAt :: "string option option"
  u_contextUsagePercent :: "int option option"
  u_totalLinesAdded :: "int option option"
  u_totalLinesRemoved :: "int option option"
  u_filesChangedCount :: "int option option"
  u_subtitle :: "string option option"
  u_model :: "string option option"

text \<open>The payload is opaque to the daemon; it is kept as its serialised text.\<close>

record TranscriptEvent =
  e_eventId :: string
  e_sessionId :: string
  e_ts :: string
  e_type :: TranscriptEventType
  e_payload :: string
  e_sourceId :: "string option"

text \<open>
  JavaScript truthiness of an optional string, as tested by \<^verbatim>\<open>if (data.sourceId)\<close> and
  \<^verbatim>\<open>if (!afterEventId)\<close>: absent and the empty string are both falsy.
\<close>

fun truthy :: "string option \<Rightarrow> bool" where
  "truthy None = False"
| "truthy (Some s) = (s \<noteq> [])"

text \<open>\<^verbatim>\<open>Object.assign(session, updates)\<close>: the fields present in the updates overwrite.\<close>

definition assign :: "Session \<Rightarrow> SessionUpdates \<Rightarrow> Session" where
  "assign s u =
     s\<lparr> s_sessionId := (case u_sessionId u of None \<Rightarrow> s_sessionId s | Some v \<Rightarrow> v),
        s_instanceId := (case u_instanceId u of None \<Rightarrow> s_instanceId s | Some v \<Rightarrow> v),
        s_title := (case u_title u of None \<Rightarrow> s_title s | Some v \<Rightarrow> v),
        s_createdAt := (case u_createdAt u of None \<Rightarrow> s_createdAt s | Some v \<Rightarrow> v),
        s_status := (case u_status u of None \<Rightarrow> s_status s | Some v \<Rightarrow> v),
        s_mode := (case u_mode u of None \<Rightarrow> s_mode s | Some v \<Rightarrow> v),
        s_lastUpdatedAt := (case u_lastUpdatedAt u of None \<Rightarrow> s_lastUpdatedAt s | Some v \<Rightarrow> v),
        s_contextUsagePercent :=
          (case u_contextUsagePercent u of None \<Rightarrow> s_contextUsagePercent s | Some v \<Rightarrow> v),
        s_totalLinesAdded :=
          (case u_totalLinesAdded u of None \<Rightarrow> s_totalLinesAdded s | Some v \<Rightarrow> v),
        s_totalLinesRemoved :=
          (case u_totalLinesRemoved u of None \<Rightarrow> s_totalLinesRemoved s | Some v \<Rightarrow> v),
        s_filesChangedCount :=
          (case u_filesChangedCount u of None \<Rightarrow> s_filesChangedCount s | Some v \<Rightarrow> v),
        s_subtitle := (case u_subtitle u of None \<Rightarrow> s_subtitle s | Some v \<Rightarrow> v),
        s_model := (case u_model u of None \<Rightarrow> s_model s | Some v \<Rightarrow> v) \<rparr>"

text \<open>
  What \<^verbatim>\<open>JSON.stringify\<close> writes of the updates, read back by \<^verbatim>\<open>JSON.parse\<close>: the keys whose
  value is \<^verbatim>\<open>undefined\<close> are gone.
\<close>

fun dropUndefined :: "'a option option \<Rightarrow> 'a option option" where
  "dropUndefined (Some None) = None"
| "dropUndefined v = v"

definition stringifyUpdates :: "SessionUpdates \<Rightarrow> SessionUpdates" where
  "stringifyUpdates u =
     u\<lparr> u_mode := dropUndefined (u_mode u),
        u_lastUpdatedAt := dropUndefined (u_lastUpdatedAt u),
        u_contextUsagePercent := dropUndefined (u_contextUsagePercent u),
        u_totalLinesAdded := dropUndefined (u_totalLinesAdded u),
        u_totalLinesRemoved := dropUndefined (u_totalLinesRemoved u),
        u_filesChangedCount := dropUndefined (u_filesChangedCount u),
        u_subtitle := dropUndefined (u_subtitle u),
        u_model := dropUndefined (u_model u) \<rparr>"

definition noUpdates :: SessionUpdates where
  "noUpdates =
     \<lparr> u_sessionId = None, u_instanceId = None, u_title = None, u_createdAt = None,
       u_status = None, u_mode = None, u_lastUpdatedAt = None, u_contextUsagePercent = None,
       u_totalLinesAdded = None, u_totalLinesRemoved = None, u_filesChangedCount = None,
       u_subtitle = None, u_model = None \<rparr>"

section \<open>Durable log (packages/daemon/src/persistence.ts)\<close>

text \<open>
  A JSONL file is the list of its records, in file order; \<^verbatim>\<open>appendLine\<close> adds one record
  at the end and \<^verbatim>\<open>readLines\<close> returns them all. The transcripts directory is an
  association list from file name to file content, in creation order. The manager's
  private \<^verbatim>\<open>seenSourceIds\<close> cache, read only by \<^verbatim>\<open>hasSourceId\<close>, is left out: the
  registry never calls it.
\<close>

text \<open>The exceptions that leave an operation of the daemon.\<close>

datatype error = ListenerThrew | SendFailed string | AppendFailed

datatype SessionRecord =
    RecStart Session string
  | RecUpdate string SessionUpdates string
  | RecEnd string string

text \<open>
  The file system refuses a file name longer than \<open>nameMax\<close> bytes (255 on the common file
  systems): \<^verbatim>\<open>appendFileSync\<close> then throws \<^verbatim>\<open>ENAMETOOLONG\<close> and no such file ever exists. The
  name of a transcript file is made of ASCII characters, so its length in bytes is its
  length; the name of the session log is fixed.
\<close>

record PersistenceManager =
  sessionsFile :: "SessionRecord list"
  transcriptsDir :: "(string \<times> TranscriptEvent list) list"
  nameMax :: nat

definition emptyDataDir :: PersistenceManager where
  "emptyDataDir = \<lparr> sessionsFile = [], transcriptsDir = [], nameMax = 255 \<rparr>"

definition safeChar :: "char \<Rightarrow> bool" where
  "safeChar c \<longleftrightarrow>
     c \<in> set ''abcdefghijklmnopqrstuvwxyzABCDEFGHIJKLMNOPQRSTUVWXYZ0123456789_-''"

text \<open>\<^verbatim>\<open>sessionId.replace(/[^a-zA-Z0-9_-]/g, '_')\<close> followed by the \<^verbatim>\<open>.jsonl\<close> suffix.\<close>

definition getTranscriptFile :: "string \<Rightarrow> string" where
  "getTranscriptFile sessionId =
     map (\<lambda>c. if safeChar c then c else CHR ''_'') sessionId @ ''.jsonl''"

definition readLines :: "(string \<times> 'a list) list \<Rightarrow> string \<Rightarrow> 'a list" where
  "readLines dir filePath = (case map_of dir filePath of None \<Rightarrow> [] | Some ls \<Rightarrow> ls)"

definition appendLine ::
  "nat \<Rightarrow> string \<Rightarrow> 'a \<Rightarrow> (string \<times> 'a list) list \<Rightarrow> error + (string \<times> 'a list) list" where
  "appendLine limit filePath x dir =
     (if length filePath > limit then Inl AppendFailed
      else Inr (AList.update filePath (readLines dir filePath @ [x]) dir))"

definition persistSessionStart :: "string \<Rightarrow> Session \<Rightarrow> PersistenceManager \<Rightarrow> PersistenceManager" where
  "persistSessionStart now session pm =
     pm\<lparr> sessionsFile := sessionsFile pm @ [RecStart session now] \<rparr>"

definition persistSessionUpdate ::
  "string \<Rightarrow> string \<Rightarrow> SessionUpdates \<Rightarrow> PersistenceManager \<Rightarrow> PersistenceManager" where
  "persistSessionUpdate now sessionId updates pm =
     pm\<lparr> sessionsFile := sessionsFile pm @ [RecUpdate sessionId (stringifyUpdates updates) now] \<rparr>"

definition persistSessionEnd :: "string \<Rightarrow> string \<Rightarrow> PersistenceManager \<Rightarrow> PersistenceManager" where
  "persistSessionEnd now sessionId pm =
     pm\<lparr> sessionsFile := sessionsFile pm @ [RecEnd sessionId now] \<rparr>"

definition persistTranscriptEvent ::
  "TranscriptEvent \<Rightarrow> PersistenceManager \<Rightarrow> error + PersistenceManager" where
  "persistTranscriptEvent event pm =
     (case appendLine (nameMax pm) (getTranscriptFile (e_sessionId event)) event (transcriptsDir pm) of
        Inl e \<Rightarrow> Inl e
      | Inr dir \<Rightarrow> Inr (pm\<lparr> transcriptsDir := dir \<rparr>))"

text \<open>One iteration of the \<^verbatim>\<open>switch (record.action)\<close> loop of \<^verbatim>\<open>loadSessions\<close>.\<close>

fun replayRecord :: "(string \<times> Session) list \<Rightarrow> SessionRecord \<Rightarrow> (string \<times> Session) list" where
  "replayRecord sessions (RecStart session ts) = AList.update (s_sessionId session) session sessions"
| "replayRecord sessions (RecUpdate sessionId updates ts) =
     (case map_of sessions sessionId of
        None \<Rightarrow> sessions
      | Some session \<Rightarrow> AList.update sessionId (assign session updates) sessions)"
| "replayRecord sessions (RecEnd sessionId ts) =
     (case map_of sessions sessionId of
        None \<Rightarrow> sessions
      | Some session \<Rightarrow> AList.update sessionId (session\<lparr> s_status := StatusIdle \<rparr>) sessions)"

definition loadSessions :: "PersistenceManager \<Rightarrow> (string \<times> Session) list" where
  "loadSessions pm = foldl replayRecord [] (sessionsFile pm)"

definition loadTranscriptEvents :: "PersistenceManager \<Rightarrow> string \<Rightarrow> TranscriptEvent list" where
  "loadTranscriptEvents pm sessionId = readLines (transcriptsDir pm) (getTranscriptFile sessionId)"

text \<open>\<^verbatim>\<open>str.replace(pat, rep)\<close> with a string pattern: the first occurrence only.\<close>

fun replaceFirst :: "string \<Rightarrow> string \<Rightarrow> string \<Rightarrow> string" where
  "replaceFirst pat rep [] = (if pat = [] then rep else [])"
| "replaceFirst pat rep (c # cs) =
     (if take (length pat) (c # cs) = pat then rep @ drop (length pat) (c # cs)
      else c # replaceFirst pat rep cs)"

definition endsWith :: "string \<Rightarrow> string \<Rightarrow> bool" where
  "endsWith s suffix \<longleftrightarrow> length suffix \<le> length s \<and> drop (length s - length suffix) s = suffix"

definition loadAllTranscriptEvents :: "PersistenceManager \<Rightarrow> (string \<times> TranscriptEvent list) list" where
  "loadAllTranscriptEvents pm =
     foldl (\<lambda>result file.
              let sessionId = replaceFirst ''.jsonl'' '''' file;
                  events = loadTranscriptEvents pm sessionId
              in if length events > 0 then AList.update sessionId events result else result)
           []
           (filter (\<lambda>f. endsWith f ''.jsonl'') (map fst (transcriptsDir pm)))"

section \<open>State registry (packages/daemon/src/registry.ts)\<close>

text \<open>
  A JavaScript \<^verbatim>\<open>Map\<close> is an association list in insertion order: \<^verbatim>\<open>get\<close> is
  \<^const>\<open>map_of\<close>, \<^verbatim>\<open>set\<close> is \<^const>\<open>AList.update\<close> (an existing key keeps its place, a new key
  goes to the end) and \<^verbatim>\<open>delete\<close> is \<^const>\<open>AList.delete\<close>.

  A listener is a callback owned by the caller. The model gives it an identity \<open>lid\<close> (the
  function object, which is what the listener \<^verbatim>\<open>Set\<close> compares) and says for which
  arguments the call throws; the registry records every call it makes in \<open>notified\<close>.
  Listeners are assumed not to call back into the registry.
\<close>

datatype InstanceChange = InstUpdate | InstDisconnect

datatype SessionChange = SessStart | SessUpdate | SessEnd

record 'a Listener =
  lid :: nat
  throws :: "'a \<Rightarrow> bool"

datatype ListenerCall =
    InstanceCall nat InstanceChange Instance
  | SessionCall nat SessionChange Session
  | TranscriptCall nat TranscriptEvent

record Registry =
  instances :: "(string \<times> Instance) list"
  sessions :: "(string \<times> Session) list"
  transcripts :: "(string \<times> TranscriptEvent list) list"
  seenSourceIds :: "(string \<times> string set) list"
  instanceListeners :: "(InstanceChange \<times> Instance) Listener list"
  sessionListeners :: "(SessionChange \<times> Session) Listener list"
  transcriptListeners :: "TranscriptEvent Listener list"
  persistence :: "PersistenceManager option"
  notified :: "ListenerCall list"

definition MAX_EVENTS_PER_SESSION :: nat where
  "MAX_EVENTS_PER_SESSION = 10000"

text \<open>
  \<^verbatim>\<open>listeners.forEach((cb) => cb(arg))\<close>: the callbacks run in insertion order; the first
  one that throws ends the loop and the exception leaves \<^verbatim>\<open>forEach\<close>. The result is the
  list of the calls made and whether one threw.
\<close>

fun forEach :: "'a Listener list \<Rightarrow> 'a \<Rightarrow> (nat \<times> 'a) list \<times> bool" where
  "forEach [] a = ([], False)"
| "forEach (cb # cbs) a =
     (if throws cb a then ([(lid cb, a)], True)
      else (let (calls, threw) = forEach cbs a in ((lid cb, a) # calls, threw)))"

definition notifyInstance :: "InstanceChange \<Rightarrow> Instance \<Rightarrow> Registry \<Rightarrow> bool \<times> Registry" where
  "notifyInstance ty instance st =
     (let (calls, threw) = forEach (instanceListeners st) (ty, instance)
      in (threw, st\<lparr> notified := notified st @ map (\<lambda>(l, (t, i)). InstanceCall l t i) calls \<rparr>))"

definition notifySession :: "SessionChange \<Rightarrow> Session \<Rightarrow> Registry \<Rightarrow> bool \<times> Registry" where
  "notifySession ty session st =
     (let (calls, threw) = forEach (sessionListeners st) (ty, session)
      in (threw, st\<lparr> notified := notified st @ map (\<lambda>(l, (t, s)). SessionCall l t s) calls \<rparr>))"

definition notifyTranscript :: "TranscriptEvent \<Rightarrow> Registry \<Rightarrow> bool \<times> Registry" where
  "notifyTranscript event st =
     (let (calls, threw) = forEach (transcriptListeners st) event
      in (threw, st\<lparr> notified := notified st @ map (\<lambda>(l, e). TranscriptCall l e) calls \<rparr>))"

text \<open>\<^verbatim>\<open>persistence?.method(...)\<close>: nothing happens when no persistence is configured.\<close>

definition withPersistence :: "(PersistenceManager \<Rightarrow> PersistenceManager) \<Rightarrow> Registry \<Rightarrow> Registry" where
  "withPersistence f st = st\<lparr> persistence := map_option f (persistence st) \<rparr>"

text \<open>The same for a method of the persistence manager that can throw.\<close>

definition tryPersist ::
  "(PersistenceManager \<Rightarrow> error + PersistenceManager) \<Rightarrow> Registry \<Rightarrow> error + Registry" where
  "tryPersist f st =
     (case persistence st of
        None \<Rightarrow> Inr st
      | Some pm \<Rightarrow> (case f pm of Inl e \<Rightarrow> Inl e | Inr pm' \<Rightarrow> Inr (st\<lparr> persistence := Some pm' \<rparr>)))"

text \<open>
  The source ids that the rebuild loop adds to the \<^verbatim>\<open>Set\<close> of one session, in order;
  the set is non-empty exactly when the list is.
\<close>

fun sourceIdList :: "TranscriptEvent list \<Rightarrow> string list" where
  "sourceIdList [] = []"
| "sourceIdList (e # es) =
     (if truthy (e_sourceId e) then the (e_sourceId e) # sourceIdList es else sourceIdList es)"

definition createInstanceRegistry :: "PersistenceManager option \<Rightarrow> Registry" where
  "createInstanceRegistry opt =
     (case opt of
        None \<Rightarrow>
          \<lparr> instances = [], sessions = [], transcripts = [], seenSourceIds = [],
            instanceListeners = [], sessionListeners = [], transcriptListeners = [],
            persistence = None, notified = [] \<rparr>
      | Some pm \<Rightarrow>
          (let loadedSessions = loadSessions pm;
               loadedTranscripts = loadAllTranscriptEvents pm
           in \<lparr> instances = [],
                sessions = foldl (\<lambda>m (id, session). AList.update id session m) [] loadedSessions,
                transcripts =
                  foldl (\<lambda>m (sessionId, events). AList.update sessionId events m) [] loadedTranscripts,
                seenSourceIds =
                  foldl (\<lambda>m (sessionId, events).
                           let sourceIdSet = set (sourceIdList events)
                           in if sourceIdList events \<noteq> [] then AList.update sessionId sourceIdSet m else m)
                        [] loadedTranscripts,
                instanceListeners = [], sessionListeners = [], transcriptListeners = [],
                persistence = Some pm, notified = [] \<rparr>))"

definition ensureSourceIdSet :: "string \<Rightarrow> (string \<times> string set) list \<Rightarrow> string set" where
  "ensureSourceIdSet sessionId seen = (case map_of seen sessionId of None \<Rightarrow> {} | Some S \<Rightarrow> S)"

subsection \<open>Instances\<close>

text \<open>
  \<^verbatim>\<open>data\<close> has every field of an instance but the two timestamps, which the registry sets:
  it is passed as an \<^typ>\<open>Instance\<close> whose timestamps are overwritten.
\<close>

definition registerInstance :: "string \<Rightarrow> Instance \<Rightarrow> Registry \<Rightarrow> (error + Instance) \<times> Registry" where
  "registerInstance now data st =
     (let instance = data\<lparr> i_startedAt := now, i_lastSeenAt := now \<rparr>;
          st1 = st\<lparr> instances := AList.update (i_instanceId data) instance (instances st) \<rparr>;
          (threw, st2) = notifyInstance InstUpdate instance st1
      in if threw then (Inl ListenerThrew, st2) else (Inr instance, st2))"

definition updateHeartbeat :: "string \<Rightarrow> string \<Rightarrow> Registry \<Rightarrow> (error + unit) \<times> Registry" where
  "updateHeartbeat now instanceId st =
     (case map_of (instances st) instanceId of
        None \<Rightarrow> (Inr (), st)
      | Some instance0 \<Rightarrow>
          (let instance = instance0\<lparr> i_lastSeenAt := now \<rparr>;
               st1 = st\<lparr> instances := AList.update instanceId instance (instances st) \<rparr>;
               (threw, st2) = notifyInstance InstUpdate instance st1
           in if threw then (Inl ListenerThrew, st2) else (Inr (), st2)))"

text \<open>
  The \<^verbatim>\<open>for (const [_sessionId, session] of sessions)\<close> loop of \<^verbatim>\<open>removeInstance\<close>, over
  the entries still to visit. The loop changes no key of the map and each session object is
  stored under one key, so the entries to visit are those of the map when the loop starts.
\<close>

fun removeInstanceLoop ::
  "string \<Rightarrow> string \<Rightarrow> (string \<times> Session) list \<Rightarrow> Registry \<Rightarrow> (error + unit) \<times> Registry" where
  "removeInstanceLoop now instanceId [] st = (Inr (), st)"
| "removeInstanceLoop now instanceId ((key, session0) # rest) st =
     (if s_instanceId session0 = instanceId \<and> s_status session0 = StatusActive then
        (let session = session0\<lparr> s_status := StatusIdle \<rparr>;
             st1 = st\<lparr> sessions := AList.update key session (sessions st) \<rparr>;
             (threw, st2) = notifySession SessEnd session st1
         in if threw then (Inl ListenerThrew, st2)
            else removeInstanceLoop now instanceId rest
                   (withPersistence (persistSessionEnd now (s_sessionId session)) st2))
      else removeInstanceLoop now instanceId rest st)"

definition removeInstance :: "string \<Rightarrow> string \<Rightarrow> Registry \<Rightarrow> (error + unit) \<times> Registry" where
  "removeInstance now instanceId st =
     (case map_of (instances st) instanceId of
        None \<Rightarrow> (Inr (), st)
      | Some instance \<Rightarrow>
          (let st1 = st\<lparr> instances := AList.delete instanceId (instances st) \<rparr>;
               (r, st2) = removeInstanceLoop now instanceId (sessions st1) st1
           in case r of
                Inl e \<Rightarrow> (Inl e, st2)
              | Inr _ \<Rightarrow>
                  (let (threw, st3) = notifyInstance InstDisconnect instance st2
                   in if threw then (Inl ListenerThrew, st3) else (Inr (), st3))))"

definition getInstance :: "string \<Rightarrow> Registry \<Rightarrow> Instance option" where
  "getInstance instanceId st = map_of (instances st) instanceId"

definition getAllInstances :: "Registry \<Rightarrow> Instance list" where
  "getAllInstances st = map snd (instances st)"

subsection \<open>Sessions\<close>

text \<open>
  \<^verbatim>\<open>data\<close> has every field of a session but \<^verbatim>\<open>createdAt\<close>: it is passed as a
  \<^typ>\<open>Session\<close> whose \<^verbatim>\<open>createdAt\<close> (and \<^verbatim>\<open>instanceId\<close>) is overwritten, as
  \<^verbatim>\<open>{ ...data, instanceId, createdAt: ... }\<close> does.
\<close>

definition startSession :: "string \<Rightarrow> string \<Rightarrow> Session \<Rightarrow> Registry \<Rightarrow> (error + Session) \<times> Registry" where
  "startSession now instanceId data st =
     (case map_of (sessions st) (s_sessionId data) of
        Some existing0 \<Rightarrow>
          (let existing = existing0\<lparr> s_status := StatusActive, s_instanceId := instanceId \<rparr>;
               st1 = st\<lparr> sessions := AList.update (s_sessionId data) existing (sessions st) \<rparr>;
               (threw, st2) = notifySession SessUpdate existing st1
           in if threw then (Inl ListenerThrew, st2)
              else (Inr existing,
                    withPersistence
                      (persistSessionUpdate now (s_sessionId data)
                         (noUpdates\<lparr> u_status := Some StatusActive, u_instanceId := Some instanceId \<rparr>))
                      st2))
      | None \<Rightarrow>
          (let session = data\<lparr> s_instanceId := instanceId, s_createdAt := now \<rparr>;
               st1 = st\<lparr> sessions := AList.update (s_sessionId data) session (sessions st),
                         transcripts := AList.update (s_sessionId data) [] (transcripts st) \<rparr>;
               (threw, st2) = notifySession SessStart session st1
           in if threw then (Inl ListenerThrew, st2)
              else (Inr session, withPersistence (persistSessionStart now session) st2)))"

definition updateSession ::
  "string \<Rightarrow> string \<Rightarrow> SessionUpdates \<Rightarrow> Registry \<Rightarrow> (error + Session option) \<times> Registry" where
  "updateSession now sessionId updates st =
     (case map_of (sessions st) sessionId of
        Some session0 \<Rightarrow>
          (let session = assign session0 updates;
               st1 = st\<lparr> sessions := AList.update sessionId session (sessions st) \<rparr>;
               (threw, st2) = notifySession SessUpdate session st1
           in if threw then (Inl ListenerThrew, st2)
              else (Inr (Some session),
                    withPersistence (persistSessionUpdate now sessionId updates) st2))
      | None \<Rightarrow> (Inr None, st))"

definition endSession :: "string \<Rightarrow> string \<Rightarrow> Registry \<Rightarrow> (error + unit) \<times> Registry" where
  "endSession now sessionId st =
     (case map_of (sessions st) sessionId of
        Some session0 \<Rightarrow>
          (let session = session0\<lparr> s_status := StatusIdle \<rparr>;
               st1 = st\<lparr> sessions := AList.update sessionId session (sessions st) \<rparr>;
               (threw, st2) = notifySession SessEnd session st1
           in if threw then (Inl ListenerThrew, st2)
              else (Inr (), withPersistence (persistSessionEnd now sessionId) st2))
      | None \<Rightarrow> (Inr (), st))"

definition getSession :: "string \<Rightarrow> Registry \<Rightarrow> Session option" where
  "getSession sessionId st = map_of (sessions st) sessionId"

definition getSessionsForInstance :: "string \<Rightarrow> Registry \<Rightarrow> Session list" where
  "getSessionsForInstance instanceId st =
     filter (\<lambda>s. s_instanceId s = instanceId) (map snd (sessions st))"

definition getAllSessions :: "Registry \<Rightarrow> Session list" where
  "getAllSessions st = map snd (sessions st)"

subsection \<open>Transcript events\<close>

text \<open>\<^verbatim>\<open>while (events.length > MAX_EVENTS_PER_SESSION) events.shift()\<close>.\<close>

function evict :: "TranscriptEvent list \<Rightarrow> TranscriptEvent list" where
  "evict events = (if length events > MAX_EVENTS_PER_SESSION then evict (tl events) else events)"
  by pat_completeness auto
termination
  by (relation "measure length") (auto simp: MAX_EVENTS_PER_SESSION_def)

declare evict.simps [simp del]

text \<open>
  \<^verbatim>\<open>data\<close> has every field of an event but \<^verbatim>\<open>eventId\<close> and \<^verbatim>\<open>ts\<close>: it is passed as a
  \<^typ>\<open>TranscriptEvent\<close> whose two fields are overwritten. The result \<open>None\<close> is the
  \<^verbatim>\<open>null\<close> returned for a duplicate. When the append to the transcript file throws, the
  exception leaves the operation after the event has been added to the in-memory list and
  to the source ids seen, and before any listener is called.
\<close>

definition addTranscriptEvent ::
  "string \<Rightarrow> string \<Rightarrow> TranscriptEvent \<Rightarrow> Registry \<Rightarrow> (error + TranscriptEvent option) \<times> Registry" where
  "addTranscriptEvent eid now data st =
     (if truthy (e_sourceId data) \<and>
         (case map_of (seenSourceIds st) (e_sessionId data) of
            None \<Rightarrow> False
          | Some sourceIdSet \<Rightarrow> the (e_sourceId data) \<in> sourceIdSet)
      then (Inr None, st)
      else
        (let event = data\<lparr> e_eventId := eid, e_ts := now \<rparr>;
             events0 = (case map_of (transcripts st) (e_sessionId data) of None \<Rightarrow> [] | Some es \<Rightarrow> es);
             events1 = events0 @ [event];
             seen = (if truthy (e_sourceId event)
                     then AList.update (e_sessionId data)
                            (insert (the (e_sourceId event))
                               (ensureSourceIdSet (e_sessionId data) (seenSourceIds st)))
                            (seenSourceIds st)
                     else seenSourceIds st);
             events = evict events1;
             st1 = st\<lparr> transcripts := AList.update (e_sessionId data) events (transcripts st),
                       seenSourceIds := seen \<rparr>
         in case tryPersist (persistTranscriptEvent event) st1 of
              Inl e \<Rightarrow> (Inl e, st1)
            | Inr st2 \<Rightarrow>
                (let (threw, st3) = notifyTranscript event st2
                 in if threw then (Inl ListenerThrew, st3) else (Inr (Some event), st3))))"

text \<open>\<^verbatim>\<open>Array.prototype.findIndex\<close>: the first index that satisfies the test, or -1.\<close>

fun findIndex :: "('a \<Rightarrow> bool) \<Rightarrow> 'a list \<Rightarrow> int" where
  "findIndex p [] = -1"
| "findIndex p (x # xs) =
     (if p x then 0 else (let i = findIndex p xs in if i = -1 then -1 else i + 1))"

definition getTranscriptEvents :: "string \<Rightarrow> string option \<Rightarrow> Registry \<Rightarrow> TranscriptEvent list" where
  "getTranscriptEvents sessionId afterEventId st =
     (let events = (case map_of (transcripts st) sessionId of None \<Rightarrow> [] | Some es \<Rightarrow> es)
      in if \<not> truthy afterEventId then events
         else (let idx = findIndex (\<lambda>e. e_eventId e = the afterEventId) events
               in if idx = -1 then events else drop (nat (idx + 1)) events))"

subsection \<open>Listener registration\<close>

text \<open>\<^verbatim>\<open>Set.add\<close> and \<^verbatim>\<open>Set.delete\<close> on a set of callbacks, compared by identity.\<close>

definition setAdd :: "'a Listener \<Rightarrow> 'a Listener list \<Rightarrow> 'a Listener list" where
  "setAdd cb cbs = (if lid cb \<in> lid ` set cbs then cbs else cbs @ [cb])"

definition setDelete :: "'a Listener \<Rightarrow> 'a Listener list \<Rightarrow> 'a Listener list" where
  "setDelete cb cbs = filter (\<lambda>c. lid c \<noteq> lid cb) cbs"

definition onInstanceChange :: "(InstanceChange \<times> Instance) Listener \<Rightarrow> Registry \<Rightarrow> Registry" where
  "onInstanceChange cb st = st\<lparr> instanceListeners := setAdd cb (instanceListeners st) \<rparr>"

definition onSessionChange :: "(SessionChange \<times> Session) Listener \<Rightarrow> Registry \<Rightarrow> Registry" where
  "onSessionChange cb st = st\<lparr> sessionListeners := setAdd cb (sessionListeners st) \<rparr>"

definition onTranscriptEvent :: "TranscriptEvent Listener \<Rightarrow> Registry \<Rightarrow> Registry" where
  "onTranscriptEvent cb st = st\<lparr> transcriptListeners := setAdd cb (transcriptListeners st) \<rparr>"

text \<open>The unsubscribe handles returned by the three registration functions.\<close>

definition offInstanceChange :: "(InstanceChange \<times> Instance) Listener \<Rightarrow> Registry \<Rightarrow> Registry" where
  "offInstanceChange cb st = st\<lparr> instanceListeners := setDelete cb (instanceListeners st) \<rparr>"

definition offSessionChange :: "(SessionChange \<times> Session) Listener \<Rightarrow> Registry \<Rightarrow> Registry" where
  "offSessionChange cb st = st\<lparr> sessionListeners := setDelete cb (sessionListeners st) \<rparr>"

definition offTranscriptEvent :: "TranscriptEvent Listener \<Rightarrow> Registry \<Rightarrow> Registry" where
  "offTranscriptEvent cb st = st\<lparr> transcriptListeners := setDelete cb (transcriptListeners st) \<rparr>"

text \<open>
  The listeners that one notification calls: those registered before the first one that
  throws for the argument, and that one.
\<close>

definition called :: "'a Listener list \<Rightarrow> 'a \<Rightarrow> 'a Listener list" where
  "called cbs a =
     takeWhile (\<lambda>cb. \<not> throws cb a) cbs @ take 1 (dropWhile (\<lambda>cb. \<not> throws cb a) cbs)"

text \<open>
  The registry once \<^verbatim>\<open>addTranscriptEvent\<close> has pushed the event onto the in-memory list of
  its session, recorded its source id and evicted; the data directory after the event has
  been appended to the transcript file of its session; and whether the file system takes the
  name of the transcript file of a session.
\<close>

definition remembered :: "TranscriptEvent \<Rightarrow> Registry \<Rightarrow> Registry" where
  "remembered event st =
     st\<lparr> transcripts :=
           AList.update (e_sessionId event)
             (evict ((case map_of (transcripts st) (e_sessionId event) of None \<Rightarrow> [] | Some es \<Rightarrow> es) @
                     [event]))
             (transcripts st),
         seenSourceIds :=
           (if truthy (e_sourceId event)
            then AList.update (e_sessionId event)
                   (insert (the (e_sourceId event))
                      (ensureSourceIdSet (e_sessionId event) (seenSourceIds st)))
                   (seenSourceIds st)
            else seenSourceIds st) \<rparr>"

definition logged :: "TranscriptEvent \<Rightarrow> PersistenceManager \<Rightarrow> PersistenceManager" where
  "logged event pm =
     pm\<lparr> transcriptsDir :=
           AList.update (getTranscriptFile (e_sessionId event))
             (readLines (transcriptsDir pm) (getTranscriptFile (e_sessionId event)) @ [event])
             (transcriptsDir pm) \<rparr>"

definition accepts :: "Registry \<Rightarrow> string \<Rightarrow> bool" where
  "accepts st sessionId \<longleftrightarrow>
     (case persistence st of
        None \<Rightarrow> True
      | Some pm \<Rightarrow> length (getTranscriptFile sessionId) \<le> nameMax pm)"

text \<open>
  What \<^verbatim>\<open>removeInstance\<close> is claimed to do to one entry of the session map, and the sessions
  it is claimed to transition: those owned by the instance and active.
\<close>

definition endOwned :: "string \<Rightarrow> string \<times> Session \<Rightarrow> string \<times> Session" where
  "endOwned instanceId p =
     (if s_instanceId (snd p) = instanceId \<and> s_status (snd p) = StatusActive
      then (fst p, (snd p)\<lparr> s_status := StatusIdle \<rparr>) else p)"

definition ownedActive :: "string \<Rightarrow> (string \<times> Session) list \<Rightarrow> Session list" where
  "ownedActive instanceId m =
     map snd (filter (\<lambda>p. s_instanceId (snd p) = instanceId \<and> s_status (snd p) = StatusActive) m)"

text \<open>The registry after the loop of \<^verbatim>\<open>removeInstance\<close> when no listener throws.\<close>

definition loopResult :: "string \<Rightarrow> string \<Rightarrow> (string \<times> Session) list \<Rightarrow> (string \<times> Session) list \<Rightarrow> Registry \<Rightarrow> Registry" where
  "loopResult now iid pre rest st =
     st\<lparr> sessions := pre @ map (endOwned iid) rest,
         persistence :=
           map_option (\<lambda>pm. pm\<lparr> sessionsFile := sessionsFile pm @
                map (\<lambda>s. RecEnd (s_sessionId s) now) (ownedActive iid rest) \<rparr>) (persistence st),
         notified := notified st @
           concat (map (\<lambda>s. map (\<lambda>cb. SessionCall (lid cb) SessEnd (s\<lparr> s_status := StatusIdle \<rparr>))
                               (sessionListeners st))
                       (ownedActive iid rest)) \<rparr>"

subsection \<open>Reachable registries\<close>

text \<open>
  The operations of the \<^verbatim>\<open>InstanceRegistry\<close> interface that change the registry, as data,
  and the registries a process can be in: the one \<^verbatim>\<open>createInstanceRegistry\<close> returns (with
  or without a durable log, whatever the log holds) and those any sequence of calls leads to,
  whether a call returns or throws.
\<close>

datatype RegistryOp =
    RegisterInstance string Instance
  | UpdateHeartbeat string string
  | RemoveInstance string string
  | StartSession string string Session
  | UpdateSession string string SessionUpdates
  | EndSession string string
  | AddTranscriptEvent string string TranscriptEvent
  | OnInstanceChange "(InstanceChange \<times> Instance) Listener"
  | OnSessionChange "(SessionChange \<times> Session) Listener"
  | OnTranscriptEvent "TranscriptEvent Listener"
  | OffInstanceChange "(InstanceChange \<times> Instance) Listener"
  | OffSessionChange "(SessionChange \<times> Session) Listener"
  | OffTranscriptEvent "TranscriptEvent Listener"

fun exec :: "RegistryOp \<Rightarrow> Registry \<Rightarrow> Registry" where
  "exec (RegisterInstance now data) st = snd (registerInstance now data st)"
| "exec (UpdateHeartbeat now instanceId) st = snd (updateHeartbeat now instanceId st)"
| "exec (RemoveInstance now instanceId) st = snd (removeInstance now instanceId st)"
| "exec (StartSession now instanceId data) st = snd (startSession now instanceId data st)"
| "exec (UpdateSession now sessionId updates) st = snd (updateSession now sessionId updates st)"
| "exec (EndSession now sessionId) st = snd (endSession now sessionId st)"
| "exec (AddTranscriptEvent eid now data) st = snd (addTranscriptEvent eid now data st)"
| "exec (OnInstanceChange cb) st = onInstanceChange cb st"
| "exec (OnSessionChange cb) st = onSessionChange cb st"
| "exec (OnTranscriptEvent cb) st = onTranscriptEvent cb st"
| "exec (OffInstanceChange cb) st = offInstanceChange cb st"
| "exec (OffSessionChange cb) st = offSessionChange cb st"
| "exec (OffTranscriptEvent cb) st = offTranscriptEvent cb st"

inductive reachable :: "Registry \<Rightarrow> bool" where
  created: "reachable (createInstanceRegistry opt)"
| step: "reachable st \<Longrightarrow> reachable (exec op st)"

text \<open>A producer submitting transcript events one after the other.\<close>

fun stamp :: "string \<times> string \<times> TranscriptEvent \<Rightarrow> TranscriptEvent" where
  "stamp (eid, now, data) = data\<lparr> e_eventId := eid, e_ts := now \<rparr>"

fun submitAll :: "(string \<times> string \<times> TranscriptEvent) list \<Rightarrow> Registry \<Rightarrow> Registry" where
  "submitAll [] st = st"
| "submitAll ((eid, now, data) # rest) st = submitAll rest (snd (addTranscriptEvent eid now data st))"

subsection \<open>Runs and restarts of the registry\<close>

text \<open>The process stops and starts again on the data directory it leaves behind.\<close>

definition restart :: "Registry \<Rightarrow> Registry" where
  "restart st = createInstanceRegistry (persistence st)"

text \<open>
  An execution: calls of the registry's operations, and restarts of the process in between.
  A restart loses the listeners with everything else that is in memory.
\<close>

datatype RegistryStep = Call RegistryOp | Restart

fun execStep :: "RegistryStep \<Rightarrow> Registry \<Rightarrow> Registry" where
  "execStep (Call op) st = exec op st"
| "execStep Restart st = restart st"

definition run :: "RegistryStep list \<Rightarrow> Registry \<Rightarrow> Registry" where
  "run steps st = foldl (\<lambda>st step. execStep step st) st steps"

text \<open>A session identifier that the file-name sanitiser leaves as it is.\<close>

definition safeId :: "string \<Rightarrow> bool" where
  "safeId sessionId \<longleftrightarrow> list_all safeChar sessionId"

text \<open>
  The calls for which replay is shown to rebuild the state: a session update that does not
  rename the session and has no key whose value is \<^verbatim>\<open>undefined\<close>, a transcript event for a
  session that has been started, whose identifier is a safe file name and whose transcript
  file has a name that the file system takes, and session listeners that return normally.
\<close>

fun replayable :: "RegistryOp \<Rightarrow> Registry \<Rightarrow> bool" where
  "replayable (UpdateSession now sessionId updates) st =
     ((u_sessionId updates = None \<or> u_sessionId updates = Some sessionId) \<and>
      stringifyUpdates updates = updates)"
| "replayable (AddTranscriptEvent eid now data) st =
     (safeId (e_sessionId data) \<and> e_sessionId data \<in> fst ` set (sessions st) \<and>
      accepts st (e_sessionId data))"
| "replayable (OnSessionChange cb) st = (\<forall>a. \<not> throws cb a)"
| "replayable op st = True"

fun admissible :: "RegistryStep list \<Rightarrow> Registry \<Rightarrow> bool" where
  "admissible [] st = True"
| "admissible (Call op # steps) st = (replayable op st \<and> admissible steps (exec op st))"
| "admissible (Restart # steps) st = admissible steps (restart st)"

text \<open>The two halves of what ties a registry to its durable log.\<close>

definition sessionsConsistent :: "Registry \<Rightarrow> bool" where
  "sessionsConsistent st \<longleftrightarrow>
     (case persistence st of
        None \<Rightarrow> False
      | Some pm \<Rightarrow>
          loadSessions pm = sessions st \<and>
          distinct (map fst (sessions st)) \<and>
          (\<forall>p \<in> set (sessions st). s_sessionId (snd p) = fst p) \<and>
          (\<forall>cb \<in> set (sessionListeners st). \<forall>a. \<not> throws cb a))"

definition transcriptsConsistent :: "Registry \<Rightarrow> bool" where
  "transcriptsConsistent st \<longleftrightarrow>
     (case persistence st of
        None \<Rightarrow> False
      | Some pm \<Rightarrow>
          distinct (map fst (transcriptsDir pm)) \<and>
          (\<forall>f \<in> set (transcriptsDir pm).
             snd f \<noteq> [] \<and>
             (\<exists>sid. safeId sid \<and> sid \<in> fst ` set (sessions st) \<and> fst f = sid @ ''.jsonl'')) \<and>
          (\<forall>sid. if safeId sid
                 then getTranscriptEvents sid None st = loadTranscriptEvents pm sid \<or>
                      getTranscriptEvents sid None st =
                        drop (length (loadTranscriptEvents pm sid) - MAX_EVENTS_PER_SESSION)
                          (loadTranscriptEvents pm sid)
                 else getTranscriptEvents sid None st = []) \<and>
          (\<forall>sid. ensureSourceIdSet sid (seenSourceIds st) =
                  (if safeId sid then set (sourceIdList (loadTranscriptEvents pm sid)) else {})))"

section \<open>Connection hub (packages/daemon/src/websocket.ts)\<close>

text \<open>
  Messages are kept as typed values: \<^verbatim>\<open>JSON.stringify\<close> and \<^verbatim>\<open>JSON.parse\<close> are taken to be
  inverse to each other, and a payload that does not parse is \<open>None\<close>. The list of enabled
  models is opaque to the hub; each model is kept as its serialised text.
\<close>

datatype WSClientMessage =
    Subscribe_instances
  | Subscribe_session string
  | Unsubscribe_instances
  | Unsubscribe_session string
  | Ping
  | Send_message string string
  | Get_enabled_models string string
  | Create_chat string string string SessionMode "string option" "bool option"

datatype WSServerMessage =
    Instance_update Instance
  | Instance_disconnect string
  | Session_update Session
  | Transcript_event TranscriptEvent
  | Error_message string
  | Pong
  | Send_message_result string bool "string option" "string option"
  | Enabled_models_result string string bool "string list option" "string option"
  | Create_chat_result string bool "string option" "string option"

text \<open>
  A \<^verbatim>\<open>session_update\<close> from a producer is a partial session that always has its
  \<^verbatim>\<open>sessionId\<close>: the identifier and the other fields.
\<close>

datatype ExtensionMessage =
    Register Instance
  | Heartbeat
  | Session_start Session
  | Session_update_from string SessionUpdates
  | Session_end string
  | Transcript_event_from TranscriptEvent
  | Send_message_reply string string bool "string option" "string option"
  | Enabled_models_reply string string bool "string list option" "string option"
  | Create_chat_reply string bool "string option" "string option"

datatype DaemonToExtensionMessage =
    Send_message_request string string string
  | Get_enabled_models_request string string
  | Create_chat_request string string string SessionMode "string option" "bool option"

datatype wire = ToClient WSServerMessage | ToExtension DaemonToExtensionMessage

text \<open>
  A \<^verbatim>\<open>WebSocket\<close> is known by a number. What \<^verbatim>\<open>ws.send(data)\<close> does is decided by the ready
  state of the socket, which the hub does not control, the way \<^verbatim>\<open>send\<close> of the \<^verbatim>\<open>ws\<close> package
  decides it: on a socket that is still connecting it throws; on an open socket the message
  goes out; on a socket that is closing or closed it returns without sending anything and,
  no callback being given, without reporting anything. Every message that goes out is
  recorded, in order, in \<open>sent\<close>; every \<^verbatim>\<open>ws.close\<close> in \<open>closed\<close>. The sockets that the server
  passes to the hub are accepted connections: they are open when they arrive and closing or
  closed later, never connecting.
\<close>

datatype ReadyState = CONNECTING | OPEN | CLOSING | CLOSED

record ClientConnection =
  c_ws :: nat
  c_authenticated :: bool
  c_subscribedInstances :: bool
  c_subscribedSessions :: "string set"

record ExtensionConnection =
  x_ws :: nat
  x_instanceId :: "string option"

record PendingMessageRequest =
  pm_clientWs :: nat
  pm_sessionId :: string
  pm_requestId :: string
  pm_timestamp :: int

record PendingEnabledModelsRequest =
  pe_clientWs :: nat
  pe_instanceId :: string
  pe_requestId :: string
  pe_timestamp :: int

record PendingCreateChatRequest =
  pc_clientWs :: nat
  pc_instanceId :: string
  pc_requestId :: string
  pc_timestamp :: int

record Hub =
  registry :: Registry
  clients :: "ClientConnection list"
  extensions :: "ExtensionConnection list"
  pendingMessageRequests :: "(string \<times> PendingMessageRequest) list"
  pendingEnabledModelsRequests :: "(string \<times> PendingEnabledModelsRequest) list"
  pendingCreateChatRequests :: "(string \<times> PendingCreateChatRequest) list"
  readyState :: "nat \<Rightarrow> ReadyState"
  sent :: "(nat \<times> wire) list"
  closed :: "(nat \<times> nat \<times> string) list"

text \<open>The readings of the clock and of \<^verbatim>\<open>nanoid()\<close> that one event handler makes.\<close>

record Env =
  nowMs :: int
  nowIso :: string
  nanoid :: string

definition wsSend :: "nat \<Rightarrow> wire \<Rightarrow> Hub \<Rightarrow> (error + unit) \<times> Hub" where
  "wsSend ws data h =
     (case readyState h ws of
        CONNECTING \<Rightarrow>
          (Inl (SendFailed ''Error: WebSocket is not open: readyState 0 (CONNECTING)''), h)
      | OPEN \<Rightarrow> (Inr (), h\<lparr> sent := sent h @ [(ws, data)] \<rparr>)
      | CLOSING \<Rightarrow> (Inr (), h)
      | CLOSED \<Rightarrow> (Inr (), h))"

text \<open>\<^verbatim>\<open>try { ws.send(data) } catch { }\<close>.\<close>

definition trySend :: "nat \<Rightarrow> wire \<Rightarrow> Hub \<Rightarrow> Hub" where
  "trySend ws data h = snd (wsSend ws data h)"

text \<open>A loop that sends one message after the other on a socket, with no \<^verbatim>\<open>try\<close>.\<close>

fun sendEach :: "nat \<Rightarrow> wire list \<Rightarrow> Hub \<Rightarrow> (error + unit) \<times> Hub" where
  "sendEach ws [] h = (Inr (), h)"
| "sendEach ws (data # rest) h =
     (case wsSend ws data h of
        (Inl e, h1) \<Rightarrow> (Inl e, h1)
      | (Inr _, h1) \<Rightarrow> sendEach ws rest h1)"

subsection \<open>Broadcast\<close>

text \<open>
  \<^verbatim>\<open>for (const client of clients) { if (eligible) client.ws.send(data) }\<close>, over the clients
  still to visit: the three broadcast functions differ in the test only.
\<close>

fun broadcastLoop ::
  "(ClientConnection \<Rightarrow> bool) \<Rightarrow> wire \<Rightarrow> ClientConnection list \<Rightarrow> Hub \<Rightarrow> (error + unit) \<times> Hub" where
  "broadcastLoop eligible data [] h = (Inr (), h)"
| "broadcastLoop eligible data (client # rest) h =
     (if eligible client then
        (case wsSend (c_ws client) data h of
           (Inl e, h1) \<Rightarrow> (Inl e, h1)
         | (Inr _, h1) \<Rightarrow> broadcastLoop eligible data rest h1)
      else broadcastLoop eligible data rest h)"

definition broadcastToInstanceSubscribers :: "WSServerMessage \<Rightarrow> Hub \<Rightarrow> (error + unit) \<times> Hub" where
  "broadcastToInstanceSubscribers message h =
     broadcastLoop (\<lambda>client. c_authenticated client \<and> c_subscribedInstances client)
       (ToClient message) (clients h) h"

definition broadcastToSessionSubscribers :: "string \<Rightarrow> WSServerMessage \<Rightarrow> Hub \<Rightarrow> (error + unit) \<times> Hub" where
  "broadcastToSessionSubscribers sessionId message h =
     broadcastLoop (\<lambda>client. c_authenticated client \<and> sessionId \<in> c_subscribedSessions client)
       (ToClient message) (clients h) h"

definition broadcastToClients :: "WSServerMessage \<Rightarrow> Hub \<Rightarrow> (error + unit) \<times> Hub" where
  "broadcastToClients message h =
     broadcastLoop (\<lambda>client. c_authenticated client) (ToClient message) (clients h) h"

subsection \<open>The hub's registry listeners\<close>

definition hubOnInstanceChange :: "InstanceChange \<times> Instance \<Rightarrow> Hub \<Rightarrow> (error + unit) \<times> Hub" where
  "hubOnInstanceChange a h =
     broadcastToInstanceSubscribers
       (if fst a = InstDisconnect then Instance_disconnect (i_instanceId (snd a))
        else Instance_update (snd a)) h"

definition hubOnSessionChange :: "SessionChange \<times> Session \<Rightarrow> Hub \<Rightarrow> (error + unit) \<times> Hub" where
  "hubOnSessionChange a h =
     (case broadcastToSessionSubscribers (s_sessionId (snd a)) (Session_update (snd a)) h of
        (Inl e, h1) \<Rightarrow> (Inl e, h1)
      | (Inr _, h1) \<Rightarrow> broadcastToInstanceSubscribers (Session_update (snd a)) h1)"

definition hubOnTranscriptEvent :: "TranscriptEvent \<Rightarrow> Hub \<Rightarrow> (error + unit) \<times> Hub" where
  "hubOnTranscriptEvent event h =
     broadcastToSessionSubscribers (e_sessionId event) (Transcript_event event) h"

text \<open>
  A registry operation called by the hub runs the three listeners above inside the
  operation. Whether a listener throws depends on the clients and on the sockets only, which
  no listener changes, so it is known when the operation starts; what the listeners send is
  added to \<open>sent\<close> call by call, in the order of the calls.
\<close>

definition hubListeners :: "Hub \<Rightarrow> Registry \<Rightarrow> Registry" where
  "hubListeners h reg =
     reg\<lparr> instanceListeners := [\<lparr> lid = 0, throws = (\<lambda>a. isl (fst (hubOnInstanceChange a h))) \<rparr>],
          sessionListeners := [\<lparr> lid = 1, throws = (\<lambda>a. isl (fst (hubOnSessionChange a h))) \<rparr>],
          transcriptListeners := [\<lparr> lid = 2, throws = (\<lambda>a. isl (fst (hubOnTranscriptEvent a h))) \<rparr>],
          notified := [] \<rparr>"

fun deliver :: "Hub \<Rightarrow> ListenerCall \<Rightarrow> Hub" where
  "deliver h (InstanceCall l ty instance) = snd (hubOnInstanceChange (ty, instance) h)"
| "deliver h (SessionCall l ty session) = snd (hubOnSessionChange (ty, session) h)"
| "deliver h (TranscriptCall l event) = snd (hubOnTranscriptEvent event h)"

definition withRegistry :: "(Registry \<Rightarrow> (error + 'a) \<times> Registry) \<Rightarrow> Hub \<Rightarrow> (error + 'a) \<times> Hub" where
  "withRegistry op h =
     (let (r, reg) = op (hubListeners h (registry h))
      in (r, (foldl deliver h (notified reg))\<lparr> registry := reg \<rparr>))"

subsection \<open>Consumer connections\<close>

definition updateClient :: "nat \<Rightarrow> (ClientConnection \<Rightarrow> ClientConnection) \<Rightarrow> Hub \<Rightarrow> Hub" where
  "updateClient ws f h = h\<lparr> clients := map (\<lambda>c. if c_ws c = ws then f c else c) (clients h) \<rparr>"

definition updateExtension :: "nat \<Rightarrow> (ExtensionConnection \<Rightarrow> ExtensionConnection) \<Rightarrow> Hub \<Rightarrow> Hub" where
  "updateExtension ws f h = h\<lparr> extensions := map (\<lambda>x. if x_ws x = ws then f x else x) (extensions h) \<rparr>"

text \<open>
  \<^verbatim>\<open>for (const ext of extensions) if (ext.instanceId === targetInstanceId) { ...; break }\<close>.
\<close>

definition findExtension :: "string \<Rightarrow> Hub \<Rightarrow> ExtensionConnection option" where
  "findExtension targetInstanceId h =
     find (\<lambda>ext. x_instanceId ext = Some targetInstanceId) (extensions h)"

definition handleClientMessage :: "nat \<Rightarrow> WSClientMessage \<Rightarrow> Env \<Rightarrow> Hub \<Rightarrow> (error + unit) \<times> Hub" where
  "handleClientMessage ws message env h =
     (case message of
        Subscribe_instances \<Rightarrow>
          (let h1 = updateClient ws (\<lambda>c. c\<lparr> c_subscribedInstances := True \<rparr>) h
           in case sendEach ws (map (\<lambda>i. ToClient (Instance_update i)) (getAllInstances (registry h1))) h1 of
                (Inl e, h2) \<Rightarrow> (Inl e, h2)
              | (Inr _, h2) \<Rightarrow>
                  sendEach ws (map (\<lambda>s. ToClient (Session_update s)) (getAllSessions (registry h2))) h2)
      | Unsubscribe_instances \<Rightarrow>
          (Inr (), updateClient ws (\<lambda>c. c\<lparr> c_subscribedInstances := False \<rparr>) h)
      | Subscribe_session sessionId \<Rightarrow>
          (let h1 = updateClient ws (\<lambda>c. c\<lparr> c_subscribedSessions := insert sessionId (c_subscribedSessions c) \<rparr>) h
           in sendEach ws
                (map (\<lambda>e. ToClient (Transcript_event e)) (getTranscriptEvents sessionId None (registry h1))) h1)
      | Unsubscribe_session sessionId \<Rightarrow>
          (Inr (), updateClient ws (\<lambda>c. c\<lparr> c_subscribedSessions := c_subscribedSessions c - {sessionId} \<rparr>) h)
      | Ping \<Rightarrow> wsSend ws (ToClient Pong) h
      | Send_message sessionId text \<Rightarrow>
          wsSend ws
            (ToClient (Send_message_result sessionId False None
               (Some ''Send-message to an existing session is temporarily disabled. Use New Chat instead.'')))
            h
      | Get_enabled_models requestId targetInstanceId \<Rightarrow>
          (case findExtension targetInstanceId h of
             None \<Rightarrow>
               wsSend ws
                 (ToClient (Enabled_models_result requestId targetInstanceId False None
                    (Some ''Extension not connected for this instance'')))
                 h
           | Some targetExtension \<Rightarrow>
               (let h1 = h\<lparr> pendingEnabledModelsRequests :=
                             AList.update requestId
                               \<lparr> pe_clientWs = ws, pe_instanceId = targetInstanceId,
                                 pe_requestId = requestId, pe_timestamp = nowMs env \<rparr>
                               (pendingEnabledModelsRequests h) \<rparr>
                in case wsSend (x_ws targetExtension)
                          (ToExtension (Get_enabled_models_request requestId targetInstanceId)) h1 of
                     (Inr _, h2) \<Rightarrow> (Inr (), h2)
                   | (Inl err, h2) \<Rightarrow>
                       (Inr (),
                        trySend ws
                          (ToClient (Enabled_models_result requestId targetInstanceId False None
                             (Some (''Failed to forward to extension: '' @
                                    (case err of SendFailed t \<Rightarrow> t | _ \<Rightarrow> '''')))))
                          (h2\<lparr> pendingEnabledModelsRequests :=
                                 AList.delete requestId (pendingEnabledModelsRequests h2) \<rparr>))))
      | Create_chat requestId targetInstanceId prompt unifiedMode modelName maxMode \<Rightarrow>
          (case findExtension targetInstanceId h of
             None \<Rightarrow>
               wsSend ws
                 (ToClient (Create_chat_result requestId False None
                    (Some ''Extension not connected for this instance'')))
                 h
           | Some targetExtension \<Rightarrow>
               (let h1 = h\<lparr> pendingCreateChatRequests :=
                             AList.update requestId
                               \<lparr> pc_clientWs = ws, pc_instanceId = targetInstanceId,
                                 pc_requestId = requestId, pc_timestamp = nowMs env \<rparr>
                               (pendingCreateChatRequests h) \<rparr>
                in case wsSend (x_ws targetExtension)
                          (ToExtension (Create_chat_request requestId targetInstanceId prompt unifiedMode
                             modelName maxMode)) h1 of
                     (Inr _, h2) \<Rightarrow> (Inr (), h2)
                   | (Inl err, h2) \<Rightarrow>
                       (Inr (),
                        trySend ws
                          (ToClient (Create_chat_result requestId False None
                             (Some (''Failed to forward to extension: '' @
                                    (case err of SendFailed t \<Rightarrow> t | _ \<Rightarrow> '''')))))
                          (h2\<lparr> pendingCreateChatRequests :=
                                 AList.delete requestId (pendingCreateChatRequests h2) \<rparr>)))))"

subsection \<open>Producer connections\<close>

definition connInstanceId :: "nat \<Rightarrow> Hub \<Rightarrow> string option" where
  "connInstanceId ws h =
     (case find (\<lambda>x. x_ws x = ws) (extensions h) of None \<Rightarrow> None | Some conn \<Rightarrow> x_instanceId conn)"

definition discard :: "(error + 'a) \<times> Hub \<Rightarrow> (error + unit) \<times> Hub" where
  "discard r = (case r of (Inl e, h) \<Rightarrow> (Inl e, h) | (Inr _, h) \<Rightarrow> (Inr (), h))"

definition handleExtensionMessage :: "nat \<Rightarrow> ExtensionMessage \<Rightarrow> Env \<Rightarrow> Hub \<Rightarrow> (error + unit) \<times> Hub" where
  "handleExtensionMessage ws message env h =
     (case message of
        Register data \<Rightarrow>
          (case withRegistry (registerInstance (nowIso env) data) h of
             (Inl e, h1) \<Rightarrow> (Inl e, h1)
           | (Inr instance, h1) \<Rightarrow>
               (Inr (), updateExtension ws (\<lambda>x. x\<lparr> x_instanceId := Some (i_instanceId instance) \<rparr>) h1))
      | Heartbeat \<Rightarrow>
          (if truthy (connInstanceId ws h)
           then withRegistry (updateHeartbeat (nowIso env) (the (connInstanceId ws h))) h
           else (Inr (), h))
      | Session_start session \<Rightarrow>
          (if truthy (connInstanceId ws h)
           then discard (withRegistry (startSession (nowIso env) (the (connInstanceId ws h)) session) h)
           else (Inr (), h))
      | Session_update_from sessionId updates \<Rightarrow>
          discard (withRegistry
                     (updateSession (nowIso env) sessionId (updates\<lparr> u_sessionId := Some sessionId \<rparr>)) h)
      | Session_end sessionId \<Rightarrow> withRegistry (endSession (nowIso env) sessionId) h
      | Transcript_event_from event \<Rightarrow>
          discard (withRegistry (addTranscriptEvent (nanoid env) (nowIso env) event) h)
      | Send_message_reply sessionId requestId success composerId err \<Rightarrow>
          (case map_of (pendingMessageRequests h) requestId of
             None \<Rightarrow> (Inr (), h)
           | Some pending \<Rightarrow>
               (Inr (),
                trySend (pm_clientWs pending)
                  (ToClient (Send_message_result sessionId success composerId err))
                  (h\<lparr> pendingMessageRequests := AList.delete requestId (pendingMessageRequests h) \<rparr>)))
      | Enabled_models_reply requestId instanceId success models err \<Rightarrow>
          (case map_of (pendingEnabledModelsRequests h) requestId of
             None \<Rightarrow> (Inr (), h)
           | Some pending \<Rightarrow>
               (Inr (),
                trySend (pe_clientWs pending)
                  (ToClient (Enabled_models_result requestId instanceId success models err))
                  (h\<lparr> pendingEnabledModelsRequests :=
                        AList.delete requestId (pendingEnabledModelsRequests h) \<rparr>)))
      | Create_chat_reply requestId success composerId err \<Rightarrow>
          (case map_of (pendingCreateChatRequests h) requestId of
             None \<Rightarrow> (Inr (), h)
           | Some pending \<Rightarrow>
               (Inr (),
                trySend (pc_clientWs pending)
                  (ToClient (Create_chat_result requestId success composerId err))
                  (h\<lparr> pendingCreateChatRequests :=
                        AList.delete requestId (pendingCreateChatRequests h) \<rparr>))))"

subsection \<open>The timeout sweep\<close>

text \<open>
  The three loops of the \<^verbatim>\<open>setInterval\<close> callback, each over the entries of its map still
  to visit; a loop deletes no entry but the one it is visiting.
\<close>

fun sweepMessages :: "int \<Rightarrow> (string \<times> PendingMessageRequest) list \<Rightarrow> Hub \<Rightarrow> Hub" where
  "sweepMessages now [] h = h"
| "sweepMessages now ((requestId, request) # rest) h =
     (if now - pm_timestamp request > 30000 then
        sweepMessages now rest
          (trySend (pm_clientWs request)
             (ToClient (Send_message_result (pm_sessionId request) False None (Some ''Request timed out'')))
             (h\<lparr> pendingMessageRequests := AList.delete requestId (pendingMessageRequests h) \<rparr>))
      else sweepMessages now rest h)"

fun sweepEnabledModels :: "int \<Rightarrow> (string \<times> PendingEnabledModelsRequest) list \<Rightarrow> Hub \<Rightarrow> Hub" where
  "sweepEnabledModels now [] h = h"
| "sweepEnabledModels now ((requestId, request) # rest) h =
     (if now - pe_timestamp request > 30000 then
        sweepEnabledModels now rest
          (trySend (pe_clientWs request)
             (ToClient (Enabled_models_result requestId (pe_instanceId request) False None
                (Some ''Request timed out'')))
             (h\<lparr> pendingEnabledModelsRequests :=
                   AList.delete requestId (pendingEnabledModelsRequests h) \<rparr>))
      else sweepEnabledModels now rest h)"

fun sweepCreateChat :: "int \<Rightarrow> (string \<times> PendingCreateChatRequest) list \<Rightarrow> Hub \<Rightarrow> Hub" where
  "sweepCreateChat now [] h = h"
| "sweepCreateChat now ((requestId, request) # rest) h =
     (if now - pc_timestamp request > 30000 then
        sweepCreateChat now rest
          (trySend (pc_clientWs request)
             (ToClient (Create_chat_result requestId False None (Some ''Request timed out'')))
             (h\<lparr> pendingCreateChatRequests := AList.delete requestId (pendingCreateChatRequests h) \<rparr>))
      else sweepCreateChat now rest h)"

definition sweep :: "Env \<Rightarrow> Hub \<Rightarrow> Hub" where
  "sweep env h =
     (let h1 = sweepMessages (nowMs env) (pendingMessageRequests h) h;
          h2 = sweepEnabledModels (nowMs env) (pendingEnabledModelsRequests h1) h1
      in sweepCreateChat (nowMs env) (pendingCreateChatRequests h2) h2)"

subsection \<open>Connection handlers\<close>

text \<open>\<open>authenticated\<close> is what \<^verbatim>\<open>authManager.validateToken(token)\<close> returned.\<close>

definition handleClientConnection :: "nat \<Rightarrow> bool \<Rightarrow> Hub \<Rightarrow> (error + unit) \<times> Hub" where
  "handleClientConnection ws authenticated h =
     (if \<not> authenticated then
        (case wsSend ws (ToClient (Error_message ''Invalid or missing token'')) h of
           (Inl e, h1) \<Rightarrow> (Inl e, h1)
         | (Inr _, h1) \<Rightarrow> (Inr (), h1\<lparr> closed := closed h1 @ [(ws, 4001, ''Unauthorized'')] \<rparr>))
      else
        (Inr (),
         h\<lparr> clients := clients h @
               [\<lparr> c_ws = ws, c_authenticated = authenticated, c_subscribedInstances = False,
                  c_subscribedSessions = {} \<rparr>] \<rparr>))"

definition onClientData :: "nat \<Rightarrow> WSClientMessage option \<Rightarrow> Env \<Rightarrow> Hub \<Rightarrow> (error + unit) \<times> Hub" where
  "onClientData ws data env h =
     (case data of
        None \<Rightarrow> wsSend ws (ToClient (Error_message ''Invalid message format'')) h
      | Some message \<Rightarrow>
          (case handleClientMessage ws message env h of
             (Inl e, h1) \<Rightarrow> wsSend ws (ToClient (Error_message ''Invalid message format'')) h1
           | (Inr _, h1) \<Rightarrow> (Inr (), h1)))"

definition onClientClose :: "nat \<Rightarrow> Hub \<Rightarrow> Hub" where
  "onClientClose ws h = h\<lparr> clients := filter (\<lambda>c. c_ws c \<noteq> ws) (clients h) \<rparr>"

definition handleExtensionConnection :: "nat \<Rightarrow> Hub \<Rightarrow> Hub" where
  "handleExtensionConnection ws h =
     h\<lparr> extensions := extensions h @ [\<lparr> x_ws = ws, x_instanceId = None \<rparr>] \<rparr>"

definition onExtensionData :: "nat \<Rightarrow> ExtensionMessage option \<Rightarrow> Env \<Rightarrow> Hub \<Rightarrow> Hub" where
  "onExtensionData ws data env h =
     (case data of None \<Rightarrow> h | Some message \<Rightarrow> snd (handleExtensionMessage ws message env h))"

definition onExtensionClose :: "nat \<Rightarrow> Env \<Rightarrow> Hub \<Rightarrow> (error + unit) \<times> Hub" where
  "onExtensionClose ws env h =
     (if truthy (connInstanceId ws h) then
        (case withRegistry (removeInstance (nowIso env) (the (connInstanceId ws h))) h of
           (Inl e, h1) \<Rightarrow> (Inl e, h1)
         | (Inr _, h1) \<Rightarrow> (Inr (), h1\<lparr> extensions := filter (\<lambda>x. x_ws x \<noteq> ws) (extensions h1) \<rparr>))
      else (Inr (), h\<lparr> extensions := filter (\<lambda>x. x_ws x \<noteq> ws) (extensions h) \<rparr>))"

definition createWebSocketManager :: "Registry \<Rightarrow> Hub" where
  "createWebSocketManager reg =
     \<lparr> registry = reg, clients = [], extensions = [], pendingMessageRequests = [],
       pendingEnabledModelsRequests = [], pendingCreateChatRequests = [],
       readyState = (\<lambda>ws. OPEN), sent = [], closed = [] \<rparr>"

subsection \<open>Runs of the hub\<close>

text \<open>
  What can happen to the hub: a socket event handled by one of the callbacks above, a tick of
  the sweep timer, or a socket changing its ready state.
\<close>

datatype HubEvent =
    ClientConnects nat bool
  | ClientData nat "WSClientMessage option"
  | ClientCloses nat
  | ExtensionConnects nat
  | ExtensionData nat "ExtensionMessage option"
  | ExtensionCloses nat
  | SweepTick
  | SocketChanges nat ReadyState

fun hubStep :: "Hub \<Rightarrow> Env \<times> HubEvent \<Rightarrow> Hub" where
  "hubStep h (env, ClientConnects ws authenticated) = snd (handleClientConnection ws authenticated h)"
| "hubStep h (env, ClientData ws data) = snd (onClientData ws data env h)"
| "hubStep h (env, ClientCloses ws) = onClientClose ws h"
| "hubStep h (env, ExtensionConnects ws) = handleExtensionConnection ws h"
| "hubStep h (env, ExtensionData ws data) = onExtensionData ws data env h"
| "hubStep h (env, ExtensionCloses ws) = snd (onExtensionClose ws env h)"
| "hubStep h (env, SweepTick) = sweep env h"
| "hubStep h (env, SocketChanges ws state) = h\<lparr> readyState := (readyState h)(ws := state) \<rparr>"

definition hubRun :: "(Env \<times> HubEvent) list \<Rightarrow> Hub \<Rightarrow> Hub" where
  "hubRun events h = foldl hubStep h events"

subsection \<open>Pending requests and their results\<close>

text \<open>
  The two kinds of remote-control request that the hub tracks (nothing ever adds an entry to
  \<^verbatim>\<open>pendingMessageRequests\<close>), the pending records of one kind as (request id, consumer
  socket, timestamp), the result messages for one request id, and the events that issue a
  request with that id.
\<close>

datatype RequestKind = EnabledModels | CreateChat

fun pendingOf :: "RequestKind \<Rightarrow> Hub \<Rightarrow> (string \<times> nat \<times> int) list" where
  "pendingOf EnabledModels h =
     map (\<lambda>(requestId, p). (requestId, pe_clientWs p, pe_timestamp p)) (pendingEnabledModelsRequests h)"
| "pendingOf CreateChat h =
     map (\<lambda>(requestId, p). (requestId, pc_clientWs p, pc_timestamp p)) (pendingCreateChatRequests h)"

declare pendingOf.simps [simp del]

fun isResult :: "RequestKind \<Rightarrow> string \<Rightarrow> wire \<Rightarrow> bool" where
  "isResult EnabledModels r (ToClient (Enabled_models_result requestId instanceId success models err)) =
     (requestId = r)"
| "isResult CreateChat r (ToClient (Create_chat_result requestId success composerId err)) =
     (requestId = r)"
| "isResult k r w = False"

definition results :: "RequestKind \<Rightarrow> string \<Rightarrow> Hub \<Rightarrow> (nat \<times> wire) list" where
  "results k r h = filter (\<lambda>x. isResult k r (snd x)) (sent h)"

fun isRequest :: "RequestKind \<Rightarrow> string \<Rightarrow> Env \<times> HubEvent \<Rightarrow> bool" where
  "isRequest EnabledModels r (env, ClientData ws (Some (Get_enabled_models requestId instanceId))) =
     (requestId = r)"
| "isRequest CreateChat r
     (env, ClientData ws (Some (Create_chat requestId instanceId prompt unifiedMode modelName maxMode))) =
     (requestId = r)"
| "isRequest k r ev = False"

text \<open>A step that changes no pending record of a kind and sends no result for a request id.\<close>

definition quiet :: "RequestKind \<Rightarrow> string \<Rightarrow> Hub \<Rightarrow> Hub \<Rightarrow> bool" where
  "quiet k r h h' \<longleftrightarrow>
     pendingOf k h' = pendingOf k h \<and>
     (\<exists>extra. sent h' = sent h @ extra \<and> (\<forall>x \<in> set extra. \<not> isResult k r (snd x)))"

text \<open>How the record of one request id and its results may change.\<close>

definition tracks :: "RequestKind \<Rightarrow> string \<Rightarrow> Hub \<Rightarrow> Hub \<Rightarrow> bool" where
  "tracks k r h h' \<longleftrightarrow>
     (case map_of (pendingOf k h) r of
        None \<Rightarrow> map_of (pendingOf k h') r = None \<and> results k r h' = results k r h
      | Some p \<Rightarrow>
          (map_of (pendingOf k h') r = Some p \<and> results k r h' = results k r h) \<or>
          (map_of (pendingOf k h') r = None \<and>
           (results k r h' = results k r h \<or> (\<exists>w. results k r h' = results k r h @ [(fst p, w)]))))"

section \<open>Concrete scenarios\<close>

definition ev0 :: TranscriptEvent where
  "ev0 = \<lparr> e_eventId = '''', e_sessionId = ''s1'', e_ts = '''', e_type = EvMessage,
           e_payload = ''{}'', e_sourceId = None \<rparr>"


definition emptySourceIdEvent :: TranscriptEvent where
  "emptySourceIdEvent = ev0\<lparr> e_sourceId := Some '''' \<rparr>"

definition dupEvent :: TranscriptEvent where
  "dupEvent = ev0\<lparr> e_sourceId := Some ''m1'' \<rparr>"

definition sess0 :: Session where
  "sess0 = \<lparr> s_sessionId = ''s1'', s_instanceId = ''A'', s_title = ''chat'', s_createdAt = ''t0'',
             s_status = StatusActive, s_mode = None, s_lastUpdatedAt = None,
             s_contextUsagePercent = None, s_totalLinesAdded = None, s_totalLinesRemoved = None,
             s_filesChangedCount = None, s_subtitle = None, s_model = None \<rparr>"

definition instA :: Instance where
  "instA = \<lparr> i_instanceId = ''A'', i_app = ''cursor'', i_appVersion = ''1'', i_workspaceName = ''w'',
             i_workspacePath = ''/w'', i_pid = 1, i_startedAt = ''t0'', i_lastSeenAt = ''t0'' \<rparr>"

definition quietListener :: "nat \<Rightarrow> 'a Listener" where
  "quietListener n = \<lparr> lid = n, throws = (\<lambda>_. False) \<rparr>"

definition throwingListener :: "nat \<Rightarrow> 'a Listener" where
  "throwingListener n = \<lparr> lid = n, throws = (\<lambda>_. True) \<rparr>"

definition disconnectRegistry :: Registry where
  "disconnectRegistry =
     \<lparr> instances = [(''A'', instA)],
       sessions = [(''s1'', sess0), (''s2'', sess0\<lparr> s_sessionId := ''s2'' \<rparr>),
                   (''s3'', sess0\<lparr> s_sessionId := ''s3'', s_status := StatusIdle \<rparr>)],
       transcripts = [(''s1'', []), (''s2'', []), (''s3'', [])],
       seenSourceIds = [],
       instanceListeners = [], sessionListeners = [quietListener 1], transcriptListeners = [],
       persistence = Some emptyDataDir, notified = [] \<rparr>"

definition halfRemovedRegistry :: Registry where
  "halfRemovedRegistry =
     disconnectRegistry\<lparr> sessionListeners := [throwingListener 1, quietListener 2] \<rparr>"

definition s2Listener :: "(SessionChange \<times> Session) Listener" where
  "s2Listener = \<lparr> lid = 1, throws = (\<lambda>a. s_sessionId (snd a) = ''s2'') \<rparr>"

definition pickyRegistry :: Registry where
  "pickyRegistry =
     disconnectRegistry
       \<lparr> sessions := [(''s1'', sess0), (''s2'', sess0\<lparr> s_sessionId := ''s2'' \<rparr>),
                      (''s3'', sess0\<lparr> s_sessionId := ''s3'' \<rparr>)],
         sessionListeners := [s2Listener, quietListener 2] \<rparr>"

definition throwingRegistry :: Registry where
  "throwingRegistry =
     onTranscriptEvent (quietListener 2) (onTranscriptEvent (throwingListener 1) (createInstanceRegistry None))"

definition reactivationRegistry :: Registry where
  "reactivationRegistry =
     exec (EndSession ''t2'' ''s1'')
       (exec (StartSession ''t1'' ''A'' sess0) (createInstanceRegistry None))"

definition mkSubmission :: "nat \<Rightarrow> string \<times> string \<times> TranscriptEvent" where
  "mkSubmission i =
     (replicate (Suc i) CHR ''e'', ''t'', ev0\<lparr> e_sourceId := Some (replicate (Suc i) CHR ''m'') \<rparr>)"

definition submissions :: "nat \<Rightarrow> (string \<times> string \<times> TranscriptEvent) list" where
  "submissions n = map mkSubmission [0..<n]"

definition longId :: string where
  "longId = replicate 250 CHR ''a''"

definition longSubmissions :: "nat \<Rightarrow> (string \<times> string \<times> TranscriptEvent) list" where
  "longSubmissions n =
     map (\<lambda>i. (replicate (Suc i) CHR ''e'', ''t'',
               ev0\<lparr> e_sessionId := longId, e_sourceId := Some (replicate (Suc i) CHR ''m'') \<rparr>))
       [0..<n]"

definition clientOn :: "nat \<Rightarrow> ClientConnection" where
  "clientOn ws = \<lparr> c_ws = ws, c_authenticated = True, c_subscribedInstances = True,
                  c_subscribedSessions = {''s1''} \<rparr>"

definition goneFirstHub :: Hub where
  "goneFirstHub =
     (createWebSocketManager (createInstanceRegistry None))
       \<lparr> clients := [clientOn 1, clientOn 2, (clientOn 3)\<lparr> c_subscribedInstances := False \<rparr>],
         readyState := (\<lambda>ws. if ws = 1 then CLOSED else OPEN) \<rparr>"

definition connectedHub :: Hub where
  "connectedHub =
     (createWebSocketManager (createInstanceRegistry None))
       \<lparr> clients := [clientOn 1],
         extensions := [\<lparr> x_ws = 7, x_instanceId = Some ''A'' \<rparr>] \<rparr>"

definition env0 :: Env where
  "env0 = \<lparr> nowMs = 1000, nowIso = ''t1'', nanoid = ''e1'' \<rparr>"

definition pendingHub :: Hub where
  "pendingHub =
     hubStep connectedHub
       (env0, ClientData 1 (Some (Create_chat ''r1'' ''A'' ''fix the build'' ModeAgent None None)))"

definition timeoutThenReply :: "(Env \<times> HubEvent) list" where
  "timeoutThenReply =
     [(env0\<lparr> nowMs := 60000 \<rparr>, SweepTick),
      (env0\<lparr> nowMs := 61000 \<rparr>, ExtensionData 7 (Some (Create_chat_reply ''r1'' True (Some ''c9'') None)))]"

definition replaySteps :: "RegistryStep list" where
  "replaySteps =
     [Call (OnSessionChange (quietListener 1)),
      Call (StartSession ''t1'' ''A'' sess0),
      Call (AddTranscriptEvent ''e1'' ''t2'' dupEvent),
      Call (UpdateSession ''t3'' ''s1'' (noUpdates\<lparr> u_title := Some ''build fix'' \<rparr>)),
      Restart,
      Call (OnSessionChange (quietListener 1)),
      Call (AddTranscriptEvent ''e2'' ''t4'' dupEvent),
      Call (AddTranscriptEvent ''e3'' ''t5'' ev0),
      Call (EndSession ''t6'' ''s1'')]"

definition overflowSteps :: "RegistryStep list" where
  "overflowSteps =
     Call (StartSession ''t0'' ''A'' sess0) #
     map (\<lambda>(eid, now, data). Call (AddTranscriptEvent eid now data)) (submissions 10001)"

definition longIdSteps :: "RegistryStep list" where
  "longIdSteps =
     [Call (StartSession ''t0'' ''A'' (sess0\<lparr> s_sessionId := longId \<rparr>)),
      Call (AddTranscriptEvent ''e1'' ''t1'' (ev0\<lparr> e_sessionId := longId \<rparr>))]"

definition undefinedSteps :: "RegistryStep list" where
  "undefinedSteps =
     [Call (StartSession ''t0'' ''A'' (sess0\<lparr> s_model := Some ''gpt'' \<rparr>)),
      Call (UpdateSession ''t1'' ''s1'' (noUpdates\<lparr> u_model := Some None \<rparr>))]"

definition throwingSteps :: "RegistryStep list" where
  "throwingSteps =
     [Call (OnSessionChange (throwingListener 1)),
      Call (StartSession ''t0'' ''A'' sess0)]"

definition renameSteps :: "RegistryStep list" where
  "renameSteps =
     [Call (RegisterInstance ''t0'' instA),
      Call (StartSession ''t1'' ''A'' sess0),
      Call (UpdateSession ''t2'' ''s1'' (noUpdates\<lparr> u_sessionId := Some ''s9'' \<rparr>)),
      Call (RemoveInstance ''t3'' ''A'')]"

definition unsafeIdSteps :: "RegistryStep list" where
  "unsafeIdSteps =
     [Call (StartSession ''t0'' ''A'' (sess0\<lparr> s_sessionId := ''a.b'' \<rparr>)),
      Call (AddTranscriptEvent ''e1'' ''t1'' (ev0\<lparr> e_sessionId := ''a.b'' \<rparr>))]"

definition unstartedSteps :: "RegistryStep list" where
  "unstartedSteps =
     [Call (AddTranscriptEvent ''e1'' ''t1'' ev0),
      Call (StartSession ''t2'' ''A'' sess0)]"

section \<open>Cursor reads\<close>






section \<open>Duplicate submissions\<close>

lemma evict_drop: "evict events = drop (length events - MAX_EVENTS_PER_SESSION) events"
proof (induction events rule: evict.induct)
  case (1 events)
  show ?case
  proof (cases "length events > MAX_EVENTS_PER_SESSION")
    case True
    then have ne: "events \<noteq> []" by auto
    from True 1 have "evict events = drop (length (tl events) - MAX_EVENTS_PER_SESSION) (tl events)"
      by (subst evict.simps) simp
    also have "\<dots> = drop (length events - MAX_EVENTS_PER_SESSION) events"
      using True ne by (cases events) (simp_all add: Suc_diff_le)
    finally show ?thesis .
  next
    case False
    then show ?thesis by (subst evict.simps) simp
  qed
qed

lemma notifyTranscript_fields [simp]:
  "transcripts (snd (notifyTranscript e st)) = transcripts st"
  "seenSourceIds (snd (notifyTranscript e st)) = seenSourceIds st"
  "persistence (snd (notifyTranscript e st)) = persistence st"
  "sessions (snd (notifyTranscript e st)) = sessions st"
  "instances (snd (notifyTranscript e st)) = instances st"
  "transcriptListeners (snd (notifyTranscript e st)) = transcriptListeners st"
  "sessionListeners (snd (notifyTranscript e st)) = sessionListeners st"
  "instanceListeners (snd (notifyTranscript e st)) = instanceListeners st"
  by (simp_all add: notifyTranscript_def split_beta Let_def)

lemma withPersistence_fields [simp]:
  "transcripts (withPersistence f st) = transcripts st"
  "seenSourceIds (withPersistence f st) = seenSourceIds st"
  "sessions (withPersistence f st) = sessions st"
  "instances (withPersistence f st) = instances st"
  "transcriptListeners (withPersistence f st) = transcriptListeners st"
  "sessionListeners (withPersistence f st) = sessionListeners st"
  "instanceListeners (withPersistence f st) = instanceListeners st"
  "notified (withPersistence f st) = notified st"
  "persistence (withPersistence f st) = map_option f (persistence st)"
  by (simp_all add: withPersistence_def)

lemma tryPersist_fields:
  assumes "tryPersist f st = Inr st2"
  shows "transcripts st2 = transcripts st" and "seenSourceIds st2 = seenSourceIds st"
    and "sessions st2 = sessions st" and "instances st2 = instances st"
    and "transcriptListeners st2 = transcriptListeners st"
    and "sessionListeners st2 = sessionListeners st"
    and "instanceListeners st2 = instanceListeners st" and "notified st2 = notified st"
  using assms by (auto simp: tryPersist_def split: option.splits sum.splits)

lemma addTranscriptEvent_rejected:
  "truthy (e_sourceId data) \<Longrightarrow> map_of (seenSourceIds st) (e_sessionId data) = Some S \<Longrightarrow>
   the (e_sourceId data) \<in> S \<Longrightarrow> addTranscriptEvent eid now data st = (Inr None, st)"
  by (simp add: addTranscriptEvent_def)

lemma addTranscriptEvent_records:
  "e_sourceId data = Some s \<Longrightarrow> s \<noteq> [] \<Longrightarrow>
   \<exists>S. map_of (seenSourceIds (snd (addTranscriptEvent eid now data st))) (e_sessionId data) = Some S \<and> s \<in> S"
  by (cases "tryPersist (persistTranscriptEvent (data\<lparr> e_eventId := eid, e_ts := now \<rparr>))
               (st\<lparr> transcripts :=
                      AList.update (e_sessionId data)
                        (evict ((case map_of (transcripts st) (e_sessionId data) of
                                   None \<Rightarrow> [] | Some es \<Rightarrow> es) @
                                [data\<lparr> e_eventId := eid, e_ts := now \<rparr>]))
                        (transcripts st),
                    seenSourceIds :=
                      AList.update (e_sessionId data)
                        (insert s (ensureSourceIdSet (e_sessionId data) (seenSourceIds st)))
                        (seenSourceIds st) \<rparr>)")
     (auto simp: addTranscriptEvent_def Let_def split_beta update_conv' tryPersist_fields
        split: option.splits)

text \<open>
  C1 (amended). A submission that carries a non-empty source identifier already recorded for
  its session returns \<^verbatim>\<open>null\<close> and leaves the registry as it was: the durable log, the
  in-memory list, the deduplication set and the record of listener calls are all unchanged.
  Hence submitting the same non-empty source id twice for one session is idempotent: the
  second submission returns no event and changes nothing.
\<close>

theorem addTranscriptEvent_duplicate:
  "(s \<noteq> [] \<and> e_sourceId data = Some s \<and>
    map_of (seenSourceIds st) (e_sessionId data) = Some S \<and> s \<in> S
    \<longrightarrow> addTranscriptEvent eid now data st = (Inr None, st)) \<and>
   (s \<noteq> [] \<and> e_sourceId data = Some s \<and> e_sourceId data' = Some s \<and>
    e_sessionId data' = e_sessionId data
    \<longrightarrow> addTranscriptEvent eid' now' data' (snd (addTranscriptEvent eid now data st)) =
          (Inr None, snd (addTranscriptEvent eid now data st)))"
proof (intro conjI impI)
  assume "s \<noteq> [] \<and> e_sourceId data = Some s \<and>
    map_of (seenSourceIds st) (e_sessionId data) = Some S \<and> s \<in> S"
  then show "addTranscriptEvent eid now data st = (Inr None, st)"
    by (intro addTranscriptEvent_rejected) auto
next
  assume h: "s \<noteq> [] \<and> e_sourceId data = Some s \<and> e_sourceId data' = Some s \<and>
    e_sessionId data' = e_sessionId data"
  then obtain S where
    "map_of (seenSourceIds (snd (addTranscriptEvent eid now data st))) (e_sessionId data) = Some S"
    "s \<in> S"
    using addTranscriptEvent_records [of data s eid now st] by blast
  with h show "addTranscriptEvent eid' now' data' (snd (addTranscriptEvent eid now data st)) =
          (Inr None, snd (addTranscriptEvent eid now data st))"
    by (intro addTranscriptEvent_rejected) auto
qed

lemma evict_short: "length events \<le> MAX_EVENTS_PER_SESSION \<Longrightarrow> evict events = events"
  by (simp add: evict_drop)

text \<open>
  The empty string is falsy in \<^verbatim>\<open>if (data.sourceId)\<close>, so it is neither looked up nor
  recorded: two submissions with the source id \<^verbatim>\<open>""\<close> are both accepted.
\<close>

theorem empty_source_id_not_deduplicated:
  "fst (addTranscriptEvent ''e2'' ''t2'' emptySourceIdEvent
          (snd (addTranscriptEvent ''e1'' ''t1'' emptySourceIdEvent (createInstanceRegistry None)))) =
     Inr (Some (emptySourceIdEvent\<lparr> e_eventId := ''e2'', e_ts := ''t2'' \<rparr>)) \<and>
   length (getTranscriptEvents ''s1'' None
             (snd (addTranscriptEvent ''e1'' ''t1'' emptySourceIdEvent (createInstanceRegistry None)))) = 1 \<and>
   length (getTranscriptEvents ''s1'' None
             (snd (addTranscriptEvent ''e2'' ''t2'' emptySourceIdEvent
                (snd (addTranscriptEvent ''e1'' ''t1'' emptySourceIdEvent (createInstanceRegistry None)))))) = 2"
  by (simp add: addTranscriptEvent_def emptySourceIdEvent_def ev0_def createInstanceRegistry_def
      Let_def evict_short MAX_EVENTS_PER_SESSION_def notifyTranscript_def tryPersist_def
      getTranscriptEvents_def)

theorem addTranscriptEvent_duplicate_witness:
  "addTranscriptEvent ''e2'' ''t2'' dupEvent
     (snd (addTranscriptEvent ''e1'' ''t1'' dupEvent (createInstanceRegistry None))) =
   (Inr None, snd (addTranscriptEvent ''e1'' ''t1'' dupEvent (createInstanceRegistry None))) \<and>
   length (getTranscriptEvents ''s1'' None
     (snd (addTranscriptEvent ''e1'' ''t1'' dupEvent (createInstanceRegistry None)))) = 1"
proof -
  have "''m1'' \<noteq> [] \<and> e_sourceId dupEvent = Some ''m1'' \<and> e_sourceId dupEvent = Some ''m1'' \<and>
        e_sessionId dupEvent = e_sessionId dupEvent"
    by (simp add: dupEvent_def)
  with addTranscriptEvent_duplicate [of "''m1''" dupEvent "createInstanceRegistry None" _ _ _ dupEvent]
  have "addTranscriptEvent ''e2'' ''t2'' dupEvent
     (snd (addTranscriptEvent ''e1'' ''t1'' dupEvent (createInstanceRegistry None))) =
   (Inr None, snd (addTranscriptEvent ''e1'' ''t1'' dupEvent (createInstanceRegistry None)))"
    by blast
  moreover have "length (getTranscriptEvents ''s1'' None
     (snd (addTranscriptEvent ''e1'' ''t1'' dupEvent (createInstanceRegistry None)))) = 1"
    by (simp add: addTranscriptEvent_def dupEvent_def ev0_def createInstanceRegistry_def
      Let_def evict_short MAX_EVENTS_PER_SESSION_def notifyTranscript_def tryPersist_def
      getTranscriptEvents_def)
  ultimately show ?thesis by simp
qed

section \<open>Listener calls and transcript appends\<close>

lemma forEach_quiet:
  "\<forall>cb \<in> set cbs. \<not> throws cb a \<Longrightarrow> forEach cbs a = (map (\<lambda>cb. (lid cb, a)) cbs, False)"
  by (induction cbs) auto

lemma forEach_calls:
  "fst (forEach cbs a) =
     map (\<lambda>cb. (lid cb, a))
       (takeWhile (\<lambda>cb. \<not> throws cb a) cbs @ take 1 (dropWhile (\<lambda>cb. \<not> throws cb a) cbs))"
  by (induction cbs) (auto simp: split_beta)

lemma forEach_threw: "snd (forEach cbs a) \<longleftrightarrow> (\<exists>cb \<in> set cbs. throws cb a)"
  by (induction cbs) (auto simp: split_beta)

lemma notifySession_quiet:
  "\<forall>cb \<in> set (sessionListeners st). \<not> throws cb (ty, s) \<Longrightarrow>
   notifySession ty s st =
     (False, st\<lparr> notified := notified st @ map (\<lambda>cb. SessionCall (lid cb) ty s) (sessionListeners st) \<rparr>)"
  by (simp add: notifySession_def forEach_quiet comp_def)

lemma notifySession_fields [simp]:
  "transcripts (snd (notifySession ty s st)) = transcripts st"
  "seenSourceIds (snd (notifySession ty s st)) = seenSourceIds st"
  "persistence (snd (notifySession ty s st)) = persistence st"
  "sessions (snd (notifySession ty s st)) = sessions st"
  "instances (snd (notifySession ty s st)) = instances st"
  "transcriptListeners (snd (notifySession ty s st)) = transcriptListeners st"
  "sessionListeners (snd (notifySession ty s st)) = sessionListeners st"
  "instanceListeners (snd (notifySession ty s st)) = instanceListeners st"
  by (simp_all add: notifySession_def split_beta Let_def)

lemma notifyInstance_fields [simp]:
  "transcripts (snd (notifyInstance ty i st)) = transcripts st"
  "seenSourceIds (snd (notifyInstance ty i st)) = seenSourceIds st"
  "persistence (snd (notifyInstance ty i st)) = persistence st"
  "sessions (snd (notifyInstance ty i st)) = sessions st"
  "instances (snd (notifyInstance ty i st)) = instances st"
  "transcriptListeners (snd (notifyInstance ty i st)) = transcriptListeners st"
  "sessionListeners (snd (notifyInstance ty i st)) = sessionListeners st"
  "instanceListeners (snd (notifyInstance ty i st)) = instanceListeners st"
  by (simp_all add: notifyInstance_def split_beta Let_def)

lemma forEach_called:
  "forEach cbs a = (map (\<lambda>cb. (lid cb, a)) (called cbs a), \<exists>cb \<in> set cbs. throws cb a)"
  using forEach_calls [of cbs a] forEach_threw [of cbs a]
  by (cases "forEach cbs a") (simp add: called_def)

lemma notifyInstance_called:
  "notifyInstance ty i st =
     (\<exists>cb \<in> set (instanceListeners st). throws cb (ty, i),
      st\<lparr> notified := notified st @
            map (\<lambda>cb. InstanceCall (lid cb) ty i) (called (instanceListeners st) (ty, i)) \<rparr>)"
  by (simp add: notifyInstance_def forEach_called comp_def)

lemma notifySession_called:
  "notifySession ty s st =
     (\<exists>cb \<in> set (sessionListeners st). throws cb (ty, s),
      st\<lparr> notified := notified st @
            map (\<lambda>cb. SessionCall (lid cb) ty s) (called (sessionListeners st) (ty, s)) \<rparr>)"
  by (simp add: notifySession_def forEach_called comp_def)

lemma notifyTranscript_called:
  "notifyTranscript e st =
     (\<exists>cb \<in> set (transcriptListeners st). throws cb e,
      st\<lparr> notified := notified st @
            map (\<lambda>cb. TranscriptCall (lid cb) e) (called (transcriptListeners st) e) \<rparr>)"
  by (simp add: notifyTranscript_def forEach_called comp_def)

lemma persistTranscriptEvent_cases:
  "persistTranscriptEvent e pm =
     (if length (getTranscriptFile (e_sessionId e)) \<le> nameMax pm then Inr (logged e pm)
      else Inl AppendFailed)"
  by (simp add: persistTranscriptEvent_def appendLine_def logged_def)

lemma tryPersist_cases:
  "tryPersist (persistTranscriptEvent e) st =
     (if accepts st (e_sessionId e) then Inr (withPersistence (logged e) st) else Inl AppendFailed)"
  by (cases st; cases "persistence st")
     (simp_all add: tryPersist_def accepts_def persistTranscriptEvent_cases withPersistence_def)

lemma accepts_cong: "persistence st' = persistence st \<Longrightarrow> accepts st' S = accepts st S"
  by (simp add: accepts_def)

lemma remembered_fields [simp]:
  "persistence (remembered e st) = persistence st"
  "sessions (remembered e st) = sessions st"
  "instances (remembered e st) = instances st"
  "notified (remembered e st) = notified st"
  "transcriptListeners (remembered e st) = transcriptListeners st"
  "sessionListeners (remembered e st) = sessionListeners st"
  "instanceListeners (remembered e st) = instanceListeners st"
  by (simp_all add: remembered_def)

text \<open>The three ways out of \<^verbatim>\<open>addTranscriptEvent\<close>.\<close>

lemma addTranscriptEvent_cases:
  "addTranscriptEvent eid now data st =
     (let event = data\<lparr> e_eventId := eid, e_ts := now \<rparr>
      in if truthy (e_sourceId data) \<and>
            the (e_sourceId data) \<in> ensureSourceIdSet (e_sessionId data) (seenSourceIds st)
         then (Inr None, st)
         else if \<not> accepts st (e_sessionId data) then (Inl AppendFailed, remembered event st)
         else (if \<exists>cb \<in> set (transcriptListeners st). throws cb event
               then Inl ListenerThrew else Inr (Some event),
               (withPersistence (logged event) (remembered event st))
                 \<lparr> notified := notified st @
                      map (\<lambda>cb. TranscriptCall (lid cb) event)
                        (called (transcriptListeners st) event) \<rparr>))"
proof -
  let ?event = "data\<lparr> e_eventId := eid, e_ts := now \<rparr>"
  have dup: "(case map_of (seenSourceIds st) (e_sessionId data) of
                None \<Rightarrow> False
              | Some sourceIdSet \<Rightarrow> the (e_sourceId data) \<in> sourceIdSet) \<longleftrightarrow>
             the (e_sourceId data) \<in> ensureSourceIdSet (e_sessionId data) (seenSourceIds st)"
    by (simp add: ensureSourceIdSet_def split: option.splits)
  have st1: "st\<lparr> transcripts :=
                  AList.update (e_sessionId data)
                    (evict ((case map_of (transcripts st) (e_sessionId data) of
                               None \<Rightarrow> [] | Some es \<Rightarrow> es) @ [?event]))
                    (transcripts st),
                seenSourceIds :=
                  (if truthy (e_sourceId ?event)
                   then AList.update (e_sessionId data)
                          (insert (the (e_sourceId ?event))
                             (ensureSourceIdSet (e_sessionId data) (seenSourceIds st)))
                          (seenSourceIds st)
                   else seenSourceIds st) \<rparr> = remembered ?event st"
    by (simp add: remembered_def)
  have acc: "accepts (remembered ?event st) (e_sessionId ?event) = accepts st (e_sessionId data)"
    by (simp add: accepts_def)
  show ?thesis
    unfolding addTranscriptEvent_def Let_def dup st1 tryPersist_cases acc
    by (simp add: notifyTranscript_called)
qed

lemma getTranscriptEvents_cong:
  "transcripts st' = transcripts st \<Longrightarrow> getTranscriptEvents sid a st' = getTranscriptEvents sid a st"
  by (simp add: getTranscriptEvents_def)

lemma addTranscriptEvent_fresh_cases:
  assumes "\<not> (truthy (e_sourceId data) \<and>
              the (e_sourceId data) \<in> ensureSourceIdSet (e_sessionId data) (seenSourceIds st))"
  shows "addTranscriptEvent eid now data st =
     (if \<not> accepts st (e_sessionId data)
      then (Inl AppendFailed, remembered (data\<lparr> e_eventId := eid, e_ts := now \<rparr>) st)
      else (if \<exists>cb \<in> set (transcriptListeners st). throws cb (data\<lparr> e_eventId := eid, e_ts := now \<rparr>)
            then Inl ListenerThrew else Inr (Some (data\<lparr> e_eventId := eid, e_ts := now \<rparr>)),
            (withPersistence (logged (data\<lparr> e_eventId := eid, e_ts := now \<rparr>))
               (remembered (data\<lparr> e_eventId := eid, e_ts := now \<rparr>) st))
              \<lparr> notified := notified st @
                   map (\<lambda>cb. TranscriptCall (lid cb) (data\<lparr> e_eventId := eid, e_ts := now \<rparr>))
                     (called (transcriptListeners st) (data\<lparr> e_eventId := eid, e_ts := now \<rparr>)) \<rparr>))"
  unfolding addTranscriptEvent_cases Let_def if_not_P [OF assms] ..

lemma addTranscriptEvent_accepted:
  assumes "fst (addTranscriptEvent eid now data st) \<noteq> Inr None"
    and "accepts st (e_sessionId data)"
  shows "addTranscriptEvent eid now data st =
     (if \<exists>cb \<in> set (transcriptListeners st). throws cb (data\<lparr> e_eventId := eid, e_ts := now \<rparr>)
      then Inl ListenerThrew else Inr (Some (data\<lparr> e_eventId := eid, e_ts := now \<rparr>)),
      (withPersistence (logged (data\<lparr> e_eventId := eid, e_ts := now \<rparr>))
         (remembered (data\<lparr> e_eventId := eid, e_ts := now \<rparr>) st))
        \<lparr> notified := notified st @
             map (\<lambda>cb. TranscriptCall (lid cb) (data\<lparr> e_eventId := eid, e_ts := now \<rparr>))
               (called (transcriptListeners st) (data\<lparr> e_eventId := eid, e_ts := now \<rparr>)) \<rparr>)"
  using assms by (simp add: addTranscriptEvent_cases Let_def split: if_splits)

lemma remembered_transcripts:
  "getTranscriptEvents sid None (remembered e st) =
     (if sid = e_sessionId e then evict (getTranscriptEvents sid None st @ [e])
      else getTranscriptEvents sid None st)"
  by (simp add: remembered_def getTranscriptEvents_def update_conv')

lemma remembered_seen:
  "ensureSourceIdSet sid (seenSourceIds (remembered e st)) =
     (if sid = e_sessionId e \<and> truthy (e_sourceId e)
      then insert (the (e_sourceId e)) (ensureSourceIdSet sid (seenSourceIds st))
      else ensureSourceIdSet sid (seenSourceIds st))"
  by (simp add: remembered_def ensureSourceIdSet_def update_conv')

lemma addTranscriptEvent_sessions [simp]:
  "sessions (snd (addTranscriptEvent eid now data st)) = sessions st"
  by (simp add: addTranscriptEvent_cases Let_def)

lemma addTranscriptEvent_nameMax [simp]:
  "map_option nameMax (persistence (snd (addTranscriptEvent eid now data st))) =
     map_option nameMax (persistence st)"
  by (cases "persistence st") (simp_all add: addTranscriptEvent_cases Let_def logged_def)

lemma addTranscriptEvent_accepts [simp]:
  "accepts (snd (addTranscriptEvent eid now data st)) S = accepts st S"
  using addTranscriptEvent_nameMax [of eid now data st]
  by (cases "persistence st"; cases "persistence (snd (addTranscriptEvent eid now data st))")
     (simp_all add: accepts_def)

section \<open>Disconnection\<close>

lemma update_middle:
  "k \<notin> fst ` set xs \<Longrightarrow> AList.update k v (xs @ (k, v0) # ys) = xs @ (k, v) # ys"
  by (induction xs) auto


text \<open>The loop over a stretch of the map whose notifications all return.\<close>

lemma removeInstanceLoop_append:
  "removeInstanceLoop now iid (xs @ ys) st =
     (case removeInstanceLoop now iid xs st of
        (Inl e, st1) \<Rightarrow> (Inl e, st1)
      | (Inr u, st1) \<Rightarrow> removeInstanceLoop now iid ys st1)"
proof (induction xs arbitrary: st)
  case Nil
  show ?case by simp
next
  case (Cons p xs)
  obtain key s0 where p: "p = (key, s0)" by (cases p)
  let ?s = "s0\<lparr> s_status := StatusIdle \<rparr>"
  let ?n = "notifySession SessEnd ?s (st\<lparr> sessions := AList.update key ?s (sessions st) \<rparr>)"
  show ?case
  proof (cases "s_instanceId s0 = iid \<and> s_status s0 = StatusActive")
    case False
    then have "removeInstanceLoop now iid (p # xs) st = removeInstanceLoop now iid xs st"
      and "removeInstanceLoop now iid ((p # xs) @ ys) st = removeInstanceLoop now iid (xs @ ys) st"
      using p by auto
    with Cons.IH [of st] show ?thesis by simp
  next
    case owned: True
    show ?thesis
    proof (cases "fst ?n")
      case True
      with owned p have "removeInstanceLoop now iid (p # xs) st = (Inl ListenerThrew, snd ?n)"
        and "removeInstanceLoop now iid ((p # xs) @ ys) st = (Inl ListenerThrew, snd ?n)"
        by (simp_all add: Let_def split_beta)
      then show ?thesis by simp
    next
      case False
      let ?st2 = "withPersistence (persistSessionEnd now (s_sessionId ?s)) (snd ?n)"
      from False owned p have "removeInstanceLoop now iid (p # xs) st = removeInstanceLoop now iid xs ?st2"
        and "removeInstanceLoop now iid ((p # xs) @ ys) st = removeInstanceLoop now iid (xs @ ys) ?st2"
        by (simp_all add: Let_def split_beta)
      with Cons.IH [of ?st2] show ?thesis by simp
    qed
  qed
qed

lemma endOwned_key [simp]: "fst (endOwned iid p) = fst p"
  by (simp add: endOwned_def)

lemma removeInstanceLoop_segment:
  assumes "\<forall>s \<in> set (ownedActive iid seg). \<forall>cb \<in> set (sessionListeners st).
             \<not> throws cb (SessEnd, s\<lparr> s_status := StatusIdle \<rparr>)"
    and "sessions st = pre @ seg @ tail"
    and "distinct (map fst (pre @ seg @ tail))"
  shows "removeInstanceLoop now iid seg st =
           (Inr (), (loopResult now iid pre seg st)\<lparr> sessions := pre @ map (endOwned iid) seg @ tail \<rparr>)"
  using assms
proof (induction seg arbitrary: pre st)
  case Nil
  then show ?case
    by (cases st; cases "persistence st") (simp_all add: ownedActive_def loopResult_def)
next
  case (Cons p seg)
  obtain key s0 where p: "p = (key, s0)" by (cases p)
  show ?case
  proof (cases "s_instanceId s0 = iid \<and> s_status s0 = StatusActive")
    case False
    have lhs: "removeInstanceLoop now iid (p # seg) st = removeInstanceLoop now iid seg st"
      using False p by auto
    have ih: "removeInstanceLoop now iid seg st =
                (Inr (), (loopResult now iid (pre @ [p]) seg st)
                           \<lparr> sessions := (pre @ [p]) @ map (endOwned iid) seg @ tail \<rparr>)"
      using Cons.prems False p by (intro Cons.IH) (auto simp: ownedActive_def)
    have eq: "(loopResult now iid (pre @ [p]) seg st)
                \<lparr> sessions := (pre @ [p]) @ map (endOwned iid) seg @ tail \<rparr> =
              (loopResult now iid pre (p # seg) st)
                \<lparr> sessions := pre @ map (endOwned iid) (p # seg) @ tail \<rparr>"
      using False p by (auto simp add: loopResult_def endOwned_def ownedActive_def)
    show ?thesis by (simp only: lhs ih eq)
  next
    case True
    let ?s = "s0\<lparr> s_status := StatusIdle \<rparr>"
    let ?st2 = "withPersistence (persistSessionEnd now (s_sessionId ?s))
                  (st\<lparr> sessions := AList.update key ?s (sessions st),
                       notified := notified st @ map (\<lambda>cb. SessionCall (lid cb) SessEnd ?s) (sessionListeners st) \<rparr>)"
    have key: "key \<notin> fst ` set pre" using Cons.prems p by auto
    have upd: "AList.update key ?s (sessions st) = (pre @ [(key, ?s)]) @ seg @ tail"
      using Cons.prems(2) p key by (simp add: update_middle)
    have calm: "\<forall>cb \<in> set (sessionListeners st). \<not> throws cb (SessEnd, ?s)"
      using Cons.prems(1) True p by (simp add: ownedActive_def)
    have lhs: "removeInstanceLoop now iid (p # seg) st = removeInstanceLoop now iid seg ?st2"
      using True p calm
      by (simp add: Let_def notifySession_quiet)
    have ih: "removeInstanceLoop now iid seg ?st2 =
                (Inr (), (loopResult now iid (pre @ [(key, ?s)]) seg ?st2)
                           \<lparr> sessions := (pre @ [(key, ?s)]) @ map (endOwned iid) seg @ tail \<rparr>)"
    proof (rule Cons.IH)
      show "\<forall>s \<in> set (ownedActive iid seg). \<forall>cb \<in> set (sessionListeners ?st2).
              \<not> throws cb (SessEnd, s\<lparr> s_status := StatusIdle \<rparr>)"
        using Cons.prems(1) by (simp add: withPersistence_def ownedActive_def)
      show "sessions ?st2 = (pre @ [(key, ?s)]) @ seg @ tail"
        using upd by (simp add: withPersistence_def)
      show "distinct (map fst ((pre @ [(key, ?s)]) @ seg @ tail))"
        using Cons.prems(3) p by simp
    qed
    have eq: "(loopResult now iid (pre @ [(key, ?s)]) seg ?st2)
                \<lparr> sessions := (pre @ [(key, ?s)]) @ map (endOwned iid) seg @ tail \<rparr> =
              (loopResult now iid pre (p # seg) st)
                \<lparr> sessions := pre @ map (endOwned iid) (p # seg) @ tail \<rparr>"
      using True p
      by (cases "persistence st")
         (simp_all add: loopResult_def withPersistence_def persistSessionEnd_def endOwned_def ownedActive_def)
    show ?thesis by (simp only: lhs ih eq)
  qed
qed



section \<open>A listener that throws\<close>

lemma removeInstance_session_listener_throws:
  assumes inst: "map_of (instances st) iid = Some instance"
    and d: "distinct (map fst (sessions st))"
    and split: "sessions st = seg @ (key, s0) # rest"
    and owned: "s_instanceId s0 = iid" "s_status s0 = StatusActive"
    and calm: "\<forall>s \<in> set (ownedActive iid seg). \<forall>cb \<in> set (sessionListeners st).
                 \<not> throws cb (SessEnd, s\<lparr> s_status := StatusIdle \<rparr>)"
    and thrower: "\<exists>cb \<in> set (sessionListeners st). throws cb (SessEnd, s0\<lparr> s_status := StatusIdle \<rparr>)"
  shows "removeInstance now iid st =
     (Inl ListenerThrew,
      st\<lparr> instances := AList.delete iid (instances st),
          sessions := map (endOwned iid) seg @ (key, s0\<lparr> s_status := StatusIdle \<rparr>) # rest,
          persistence :=
            map_option (\<lambda>pm. pm\<lparr> sessionsFile := sessionsFile pm @
                 map (\<lambda>s. RecEnd (s_sessionId s) now) (ownedActive iid seg) \<rparr>) (persistence st),
          notified := notified st @
            concat (map (\<lambda>s. map (\<lambda>cb. SessionCall (lid cb) SessEnd (s\<lparr> s_status := StatusIdle \<rparr>))
                                (sessionListeners st))
                        (ownedActive iid seg)) @
            map (\<lambda>cb. SessionCall (lid cb) SessEnd (s0\<lparr> s_status := StatusIdle \<rparr>))
              (called (sessionListeners st) (SessEnd, s0\<lparr> s_status := StatusIdle \<rparr>)) \<rparr>)"
proof -
  let ?st1 = "st\<lparr> instances := AList.delete iid (instances st) \<rparr>"
  let ?s = "s0\<lparr> s_status := StatusIdle \<rparr>"
  let ?mid = "(loopResult now iid [] seg ?st1)
                \<lparr> sessions := [] @ map (endOwned iid) seg @ (key, s0) # rest \<rparr>"
  have seg: "removeInstanceLoop now iid seg ?st1 = (Inr (), ?mid)"
    using calm split d by (intro removeInstanceLoop_segment) simp_all
  have key: "key \<notin> fst ` set (map (endOwned iid) seg)"
    using d split by (auto simp: image_iff)
  have upd: "AList.update key ?s (map (endOwned iid) seg @ (key, s0) # rest) =
               map (endOwned iid) seg @ (key, ?s) # rest"
    using key by (rule update_middle)
  have "removeInstanceLoop now iid (sessions st) ?st1 =
          removeInstanceLoop now iid ((key, s0) # rest) ?mid"
    using split by (simp add: removeInstanceLoop_append seg)
  also have "\<dots> = (Inl ListenerThrew,
                    snd (notifySession SessEnd ?s (?mid\<lparr> sessions := AList.update key ?s (sessions ?mid) \<rparr>)))"
    using owned thrower by (simp add: Let_def split_beta notifySession_called loopResult_def)
  finally have loop: "removeInstanceLoop now iid (sessions st) ?st1 =
      (Inl ListenerThrew,
       snd (notifySession SessEnd ?s (?mid\<lparr> sessions := AList.update key ?s (sessions ?mid) \<rparr>)))" .
  show ?thesis
    using inst
    by (simp add: removeInstance_def Let_def loop notifySession_called loopResult_def upd)
qed

lemma removeInstance_calm:
  assumes inst: "map_of (instances st) iid = Some instance"
    and d: "distinct (map fst (sessions st))"
    and calm: "\<forall>s \<in> set (ownedActive iid (sessions st)). \<forall>cb \<in> set (sessionListeners st).
                 \<not> throws cb (SessEnd, s\<lparr> s_status := StatusIdle \<rparr>)"
  shows "removeInstance now iid st =
     (if \<exists>cb \<in> set (instanceListeners st). throws cb (InstDisconnect, instance)
      then Inl ListenerThrew else Inr (),
      st\<lparr> instances := AList.delete iid (instances st),
          sessions := map (endOwned iid) (sessions st),
          persistence :=
            map_option (\<lambda>pm. pm\<lparr> sessionsFile := sessionsFile pm @
                 map (\<lambda>s. RecEnd (s_sessionId s) now) (ownedActive iid (sessions st)) \<rparr>) (persistence st),
          notified := notified st @
            concat (map (\<lambda>s. map (\<lambda>cb. SessionCall (lid cb) SessEnd (s\<lparr> s_status := StatusIdle \<rparr>))
                                (sessionListeners st))
                        (ownedActive iid (sessions st))) @
            map (\<lambda>cb. InstanceCall (lid cb) InstDisconnect instance)
              (called (instanceListeners st) (InstDisconnect, instance)) \<rparr>)"
proof -
  let ?st1 = "st\<lparr> instances := AList.delete iid (instances st) \<rparr>"
  have loop: "removeInstanceLoop now iid (sessions st) ?st1 =
      (Inr (), (loopResult now iid [] (sessions st) ?st1)
                 \<lparr> sessions := [] @ map (endOwned iid) (sessions st) @ [] \<rparr>)"
    using calm d removeInstanceLoop_segment [of iid "sessions st" ?st1 "[]" "[]" now] by simp
  show ?thesis
    using inst
    by (simp add: removeInstance_def Let_def loop notifyInstance_called loopResult_def)
qed

text \<open>
  C7 (amended). Listeners are called synchronously at the point of mutation, in registration
  order, up to and including the first one that throws. The exception then leaves the
  registry operation: the listeners registered after the throwing one are not called and
  what the operation has still to do is not done. What the operation has done in memory
  before the notification stays: nothing is undone.

  \<^item> \<^verbatim>\<open>registerInstance\<close>, \<^verbatim>\<open>updateHeartbeat\<close>: the notification is the last step; the instance
    map is updated whether a listener throws or not.
  \<^item> \<^verbatim>\<open>startSession\<close>, \<^verbatim>\<open>updateSession\<close>, \<^verbatim>\<open>endSession\<close>: the session map (and, for a new
    session, the empty transcript list) is updated; the record is appended to the session
    log only when no listener throws.
  \<^item> \<^verbatim>\<open>addTranscriptEvent\<close>: the notification is the last step; an accepted event whose
    transcript file the file system takes is in the in-memory list, in the source ids seen
    and in the log whether a listener throws or not. When the file system refuses the file,
    the event stays in memory, nothing is logged and no listener is called.
  \<^item> \<^verbatim>\<open>removeInstance\<close>: the instance is deleted first. When a session listener throws for
    an owned active session, the sessions visited before it have become idle and have their
    end record, this session has become idle without an end record, the sessions after it
    are not visited and the instance listeners are not called. When no session listener
    throws, every owned active session becomes idle and is logged, and the instance
    listeners are called last.
\<close>

theorem listener_exception_stops_notification:
  "forEach cbs a = (map (\<lambda>cb. (lid cb, a)) (called cbs a), \<exists>cb \<in> set cbs. throws cb a) \<and>
   registerInstance now idata st =
     (let instance = idata\<lparr> i_startedAt := now, i_lastSeenAt := now \<rparr>
      in (if \<exists>cb \<in> set (instanceListeners st). throws cb (InstUpdate, instance)
          then Inl ListenerThrew else Inr instance,
          st\<lparr> instances := AList.update (i_instanceId idata) instance (instances st),
              notified := notified st @
                map (\<lambda>cb. InstanceCall (lid cb) InstUpdate instance)
                  (called (instanceListeners st) (InstUpdate, instance)) \<rparr>)) \<and>
   (map_of (instances st) iid = Some i0 \<longrightarrow>
    updateHeartbeat now iid st =
      (let instance = i0\<lparr> i_lastSeenAt := now \<rparr>
       in (if \<exists>cb \<in> set (instanceListeners st). throws cb (InstUpdate, instance)
           then Inl ListenerThrew else Inr (),
           st\<lparr> instances := AList.update iid instance (instances st),
               notified := notified st @
                 map (\<lambda>cb. InstanceCall (lid cb) InstUpdate instance)
                   (called (instanceListeners st) (InstUpdate, instance)) \<rparr>))) \<and>
   (map_of (sessions st) (s_sessionId sdata) = Some s0 \<longrightarrow>
    startSession now iid sdata st =
      (let existing = s0\<lparr> s_status := StatusActive, s_instanceId := iid \<rparr>;
           st1 = st\<lparr> sessions := AList.update (s_sessionId sdata) existing (sessions st),
                    notified := notified st @
                      map (\<lambda>cb. SessionCall (lid cb) SessUpdate existing)
                        (called (sessionListeners st) (SessUpdate, existing)) \<rparr>
       in if \<exists>cb \<in> set (sessionListeners st). throws cb (SessUpdate, existing)
          then (Inl ListenerThrew, st1)
          else (Inr existing,
                withPersistence
                  (persistSessionUpdate now (s_sessionId sdata)
                     (noUpdates\<lparr> u_status := Some StatusActive, u_instanceId := Some iid \<rparr>))
                  st1))) \<and>
   (map_of (sessions st) (s_sessionId sdata) = None \<longrightarrow>
    startSession now iid sdata st =
      (let session = sdata\<lparr> s_instanceId := iid, s_createdAt := now \<rparr>;
           st1 = st\<lparr> sessions := AList.update (s_sessionId sdata) session (sessions st),
                    transcripts := AList.update (s_sessionId sdata) [] (transcripts st),
                    notified := notified st @
                      map (\<lambda>cb. SessionCall (lid cb) SessStart session)
                        (called (sessionListeners st) (SessStart, session)) \<rparr>
       in if \<exists>cb \<in> set (sessionListeners st). throws cb (SessStart, session)
          then (Inl ListenerThrew, st1)
          else (Inr session, withPersistence (persistSessionStart now session) st1))) \<and>
   (map_of (sessions st) sid = Some s0 \<longrightarrow>
    updateSession now sid updates st =
      (let session = assign s0 updates;
           st1 = st\<lparr> sessions := AList.update sid session (sessions st),
                    notified := notified st @
                      map (\<lambda>cb. SessionCall (lid cb) SessUpdate session)
                        (called (sessionListeners st) (SessUpdate, session)) \<rparr>
       in if \<exists>cb \<in> set (sessionListeners st). throws cb (SessUpdate, session)
          then (Inl ListenerThrew, st1)
          else (Inr (Some session), withPersistence (persistSessionUpdate now sid updates) st1))) \<and>
   (map_of (sessions st) sid = Some s0 \<longrightarrow>
    endSession now sid st =
      (let session = s0\<lparr> s_status := StatusIdle \<rparr>;
           st1 = st\<lparr> sessions := AList.update sid session (sessions st),
                    notified := notified st @
                      map (\<lambda>cb. SessionCall (lid cb) SessEnd session)
                        (called (sessionListeners st) (SessEnd, session)) \<rparr>
       in if \<exists>cb \<in> set (sessionListeners st). throws cb (SessEnd, session)
          then (Inl ListenerThrew, st1)
          else (Inr (), withPersistence (persistSessionEnd now sid) st1))) \<and>
   addTranscriptEvent eid now data st =
     (let event = data\<lparr> e_eventId := eid, e_ts := now \<rparr>
      in if truthy (e_sourceId data) \<and>
            the (e_sourceId data) \<in> ensureSourceIdSet (e_sessionId data) (seenSourceIds st)
         then (Inr None, st)
         else if \<not> accepts st (e_sessionId data) then (Inl AppendFailed, remembered event st)
         else (if \<exists>cb \<in> set (transcriptListeners st). throws cb event
               then Inl ListenerThrew else Inr (Some event),
               (withPersistence (logged event) (remembered event st))
                 \<lparr> notified := notified st @
                      map (\<lambda>cb. TranscriptCall (lid cb) event)
                        (called (transcriptListeners st) event) \<rparr>)) \<and>
   (map_of (instances st) iid = Some i0 \<and> distinct (map fst (sessions st)) \<and>
    sessions st = seg @ (key, s0) # rest \<and> s_instanceId s0 = iid \<and> s_status s0 = StatusActive \<and>
    (\<forall>s \<in> set (ownedActive iid seg). \<forall>cb \<in> set (sessionListeners st).
       \<not> throws cb (SessEnd, s\<lparr> s_status := StatusIdle \<rparr>)) \<and>
    (\<exists>cb \<in> set (sessionListeners st). throws cb (SessEnd, s0\<lparr> s_status := StatusIdle \<rparr>)) \<longrightarrow>
    removeInstance now iid st =
      (Inl ListenerThrew,
       st\<lparr> instances := AList.delete iid (instances st),
           sessions := map (endOwned iid) seg @ (key, s0\<lparr> s_status := StatusIdle \<rparr>) # rest,
           persistence :=
             map_option (\<lambda>pm. pm\<lparr> sessionsFile := sessionsFile pm @
                  map (\<lambda>s. RecEnd (s_sessionId s) now) (ownedActive iid seg) \<rparr>) (persistence st),
           notified := notified st @
             concat (map (\<lambda>s. map (\<lambda>cb. SessionCall (lid cb) SessEnd (s\<lparr> s_status := StatusIdle \<rparr>))
                                 (sessionListeners st))
                         (ownedActive iid seg)) @
             map (\<lambda>cb. SessionCall (lid cb) SessEnd (s0\<lparr> s_status := StatusIdle \<rparr>))
               (called (sessionListeners st) (SessEnd, s0\<lparr> s_status := StatusIdle \<rparr>)) \<rparr>)) \<and>
   (map_of (instances st) iid = Some i0 \<and> distinct (map fst (sessions st)) \<and>
    (\<forall>s \<in> set (ownedActive iid (sessions st)). \<forall>cb \<in> set (sessionListeners st).
       \<not> throws cb (SessEnd, s\<lparr> s_status := StatusIdle \<rparr>)) \<longrightarrow>
    removeInstance now iid st =
      (if \<exists>cb \<in> set (instanceListeners st). throws cb (InstDisconnect, i0)
       then Inl ListenerThrew else Inr (),
       st\<lparr> instances := AList.delete iid (instances st),
           sessions := map (endOwned iid) (sessions st),
           persistence :=
             map_option (\<lambda>pm. pm\<lparr> sessionsFile := sessionsFile pm @
                  map (\<lambda>s. RecEnd (s_sessionId s) now) (ownedActive iid (sessions st)) \<rparr>) (persistence st),
           notified := notified st @
             concat (map (\<lambda>s. map (\<lambda>cb. SessionCall (lid cb) SessEnd (s\<lparr> s_status := StatusIdle \<rparr>))
                                 (sessionListeners st))
                         (ownedActive iid (sessions st))) @
             map (\<lambda>cb. InstanceCall (lid cb) InstDisconnect i0)
               (called (instanceListeners st) (InstDisconnect, i0)) \<rparr>))"
proof (intro conjI impI)
  show "forEach cbs a = (map (\<lambda>cb. (lid cb, a)) (called cbs a), \<exists>cb \<in> set cbs. throws cb a)"
    by (rule forEach_called)
  show "registerInstance now idata st =
     (let instance = idata\<lparr> i_startedAt := now, i_lastSeenAt := now \<rparr>
      in (if \<exists>cb \<in> set (instanceListeners st). throws cb (InstUpdate, instance)
          then Inl ListenerThrew else Inr instance,
          st\<lparr> instances := AList.update (i_instanceId idata) instance (instances st),
              notified := notified st @
                map (\<lambda>cb. InstanceCall (lid cb) InstUpdate instance)
                  (called (instanceListeners st) (InstUpdate, instance)) \<rparr>))"
    by (simp add: registerInstance_def Let_def notifyInstance_called)
  show "addTranscriptEvent eid now data st =
     (let event = data\<lparr> e_eventId := eid, e_ts := now \<rparr>
      in if truthy (e_sourceId data) \<and>
            the (e_sourceId data) \<in> ensureSourceIdSet (e_sessionId data) (seenSourceIds st)
         then (Inr None, st)
         else if \<not> accepts st (e_sessionId data) then (Inl AppendFailed, remembered event st)
         else (if \<exists>cb \<in> set (transcriptListeners st). throws cb event
               then Inl ListenerThrew else Inr (Some event),
               (withPersistence (logged event) (remembered event st))
                 \<lparr> notified := notified st @
                      map (\<lambda>cb. TranscriptCall (lid cb) event)
                        (called (transcriptListeners st) event) \<rparr>))"
    by (rule addTranscriptEvent_cases)
next
  assume "map_of (instances st) iid = Some i0"
  then show "updateHeartbeat now iid st =
      (let instance = i0\<lparr> i_lastSeenAt := now \<rparr>
       in (if \<exists>cb \<in> set (instanceListeners st). throws cb (InstUpdate, instance)
           then Inl ListenerThrew else Inr (),
           st\<lparr> instances := AList.update iid instance (instances st),
               notified := notified st @
                 map (\<lambda>cb. InstanceCall (lid cb) InstUpdate instance)
                   (called (instanceListeners st) (InstUpdate, instance)) \<rparr>))"
    by (simp add: updateHeartbeat_def Let_def notifyInstance_called)
next
  assume "map_of (sessions st) (s_sessionId sdata) = Some s0"
  then show "startSession now iid sdata st =
      (let existing = s0\<lparr> s_status := StatusActive, s_instanceId := iid \<rparr>;
           st1 = st\<lparr> sessions := AList.update (s_sessionId sdata) existing (sessions st),
                    notified := notified st @
                      map (\<lambda>cb. SessionCall (lid cb) SessUpdate existing)
                        (called (sessionListeners st) (SessUpdate, existing)) \<rparr>
       in if \<exists>cb \<in> set (sessionListeners st). throws cb (SessUpdate, existing)
          then (Inl ListenerThrew, st1)
          else (Inr existing,
                withPersistence
                  (persistSessionUpdate now (s_sessionId sdata)
                     (noUpdates\<lparr> u_status := Some StatusActive, u_instanceId := Some iid \<rparr>))
                  st1))"
    by (simp add: startSession_def Let_def notifySession_called)
next
  assume "map_of (sessions st) (s_sessionId sdata) = None"
  then show "startSession now iid sdata st =
      (let session = sdata\<lparr> s_instanceId := iid, s_createdAt := now \<rparr>;
           st1 = st\<lparr> sessions := AList.update (s_sessionId sdata) session (sessions st),
                    transcripts := AList.update (s_sessionId sdata) [] (transcripts st),
                    notified := notified st @
                      map (\<lambda>cb. SessionCall (lid cb) SessStart session)
                        (called (sessionListeners st) (SessStart, session)) \<rparr>
       in if \<exists>cb \<in> set (sessionListeners st). throws cb (SessStart, session)
          then (Inl ListenerThrew, st1)
          else (Inr session, withPersistence (persistSessionStart now session) st1))"
    by (simp add: startSession_def Let_def notifySession_called)
next
  assume "map_of (sessions st) sid = Some s0"
  then show "updateSession now sid updates st =
      (let session = assign s0 updates;
           st1 = st\<lparr> sessions := AList.update sid session (sessions st),
                    notified := notified st @
                      map (\<lambda>cb. SessionCall (lid cb) SessUpdate session)
                        (called (sessionListeners st) (SessUpdate, session)) \<rparr>
       in if \<exists>cb \<in> set (sessionListeners st). throws cb (SessUpdate, session)
          then (Inl ListenerThrew, st1)
          else (Inr (Some session), withPersistence (persistSessionUpdate now sid updates) st1))"
    by (simp add: updateSession_def Let_def notifySession_called)
next
  assume "map_of (sessions st) sid = Some s0"
  then show "endSession now sid st =
      (let session = s0\<lparr> s_status := StatusIdle \<rparr>;
           st1 = st\<lparr> sessions := AList.update sid session (sessions st),
                    notified := notified st @
                      map (\<lambda>cb. SessionCall (lid cb) SessEnd session)
                        (called (sessionListeners st) (SessEnd, session)) \<rparr>
       in if \<exists>cb \<in> set (sessionListeners st). throws cb (SessEnd, session)
          then (Inl ListenerThrew, st1)
          else (Inr (), withPersistence (persistSessionEnd now sid) st1))"
    by (simp add: endSession_def Let_def notifySession_called)
next
  assume h: "map_of (instances st) iid = Some i0 \<and> distinct (map fst (sessions st)) \<and>
    sessions st = seg @ (key, s0) # rest \<and> s_instanceId s0 = iid \<and> s_status s0 = StatusActive \<and>
    (\<forall>s \<in> set (ownedActive iid seg). \<forall>cb \<in> set (sessionListeners st).
       \<not> throws cb (SessEnd, s\<lparr> s_status := StatusIdle \<rparr>)) \<and>
    (\<exists>cb \<in> set (sessionListeners st). throws cb (SessEnd, s0\<lparr> s_status := StatusIdle \<rparr>))"
  show "removeInstance now iid st =
      (Inl ListenerThrew,
       st\<lparr> instances := AList.delete iid (instances st),
           sessions := map (endOwned iid) seg @ (key, s0\<lparr> s_status := StatusIdle \<rparr>) # rest,
           persistence :=
             map_option (\<lambda>pm. pm\<lparr> sessionsFile := sessionsFile pm @
                  map (\<lambda>s. RecEnd (s_sessionId s) now) (ownedActive iid seg) \<rparr>) (persistence st),
           notified := notified st @
             concat (map (\<lambda>s. map (\<lambda>cb. SessionCall (lid cb) SessEnd (s\<lparr> s_status := StatusIdle \<rparr>))
                                 (sessionListeners st))
                         (ownedActive iid seg)) @
             map (\<lambda>cb. SessionCall (lid cb) SessEnd (s0\<lparr> s_status := StatusIdle \<rparr>))
               (called (sessionListeners st) (SessEnd, s0\<lparr> s_status := StatusIdle \<rparr>)) \<rparr>)"
    using h by (intro removeInstance_session_listener_throws) blast+
next
  assume h: "map_of (instances st) iid = Some i0 \<and> distinct (map fst (sessions st)) \<and>
    (\<forall>s \<in> set (ownedActive iid (sessions st)). \<forall>cb \<in> set (sessionListeners st).
       \<not> throws cb (SessEnd, s\<lparr> s_status := StatusIdle \<rparr>))"
  show "removeInstance now iid st =
      (if \<exists>cb \<in> set (instanceListeners st). throws cb (InstDisconnect, i0)
       then Inl ListenerThrew else Inr (),
       st\<lparr> instances := AList.delete iid (instances st),
           sessions := map (endOwned iid) (sessions st),
           persistence :=
             map_option (\<lambda>pm. pm\<lparr> sessionsFile := sessionsFile pm @
                  map (\<lambda>s. RecEnd (s_sessionId s) now) (ownedActive iid (sessions st)) \<rparr>) (persistence st),
           notified := notified st @
             concat (map (\<lambda>s. map (\<lambda>cb. SessionCall (lid cb) SessEnd (s\<lparr> s_status := StatusIdle \<rparr>))
                                 (sessionListeners st))
                         (ownedActive iid (sessions st))) @
             map (\<lambda>cb. InstanceCall (lid cb) InstDisconnect i0)
               (called (instanceListeners st) (InstDisconnect, i0)) \<rparr>)"
    using h by (intro removeInstance_calm) blast+
qed

text \<open>
  With a throwing listener registered before a second listener, the second one is never
  called: the only call recorded is the first listener's, and the operation throws. In
  \<^verbatim>\<open>removeInstance\<close> the exception also leaves the removal half done: the instance is gone,
  its first session is idle in memory with no end record in the log, and its second session
  is still active.
\<close>

theorem throwing_listener_blocks_later_listeners:
  "transcriptListeners throwingRegistry = [throwingListener 1, quietListener 2] \<and>
   addTranscriptEvent ''e1'' ''t1'' ev0 throwingRegistry =
     (Inl ListenerThrew,
      throwingRegistry\<lparr> transcripts := [(''s1'', [ev0\<lparr> e_eventId := ''e1'', e_ts := ''t1'' \<rparr>])],
                        notified := [TranscriptCall 1 (ev0\<lparr> e_eventId := ''e1'', e_ts := ''t1'' \<rparr>)] \<rparr>) \<and>
   sessionListeners halfRemovedRegistry = [throwingListener 1, quietListener 2] \<and>
   sessions halfRemovedRegistry =
     [(''s1'', sess0), (''s2'', sess0\<lparr> s_sessionId := ''s2'' \<rparr>),
      (''s3'', sess0\<lparr> s_sessionId := ''s3'', s_status := StatusIdle \<rparr>)] \<and>
   persistence halfRemovedRegistry = Some emptyDataDir \<and>
   removeInstance ''t9'' ''A'' halfRemovedRegistry =
     (Inl ListenerThrew,
      halfRemovedRegistry
        \<lparr> instances := [],
          sessions := [(''s1'', sess0\<lparr> s_status := StatusIdle \<rparr>), (''s2'', sess0\<lparr> s_sessionId := ''s2'' \<rparr>),
                       (''s3'', sess0\<lparr> s_sessionId := ''s3'', s_status := StatusIdle \<rparr>)],
          notified := [SessionCall 1 SessEnd (sess0\<lparr> s_status := StatusIdle \<rparr>)] \<rparr>)"
  by (simp add: throwingRegistry_def onTranscriptEvent_def setAdd_def createInstanceRegistry_def
      throwingListener_def quietListener_def addTranscriptEvent_def ev0_def Let_def
      evict_short MAX_EVENTS_PER_SESSION_def notifyTranscript_def tryPersist_def
      halfRemovedRegistry_def disconnectRegistry_def removeInstance_def notifySession_def
      sess0_def)

theorem listener_exception_stops_notification_witness:
  "forEach (sessionListeners pickyRegistry) (SessEnd, sess0\<lparr> s_sessionId := ''s2'', s_status := StatusIdle \<rparr>) =
     ([(1, (SessEnd, sess0\<lparr> s_sessionId := ''s2'', s_status := StatusIdle \<rparr>))], True) \<and>
   removeInstance ''t9'' ''A'' pickyRegistry =
     (Inl ListenerThrew,
      pickyRegistry
        \<lparr> instances := [],
          sessions := [(''s1'', sess0\<lparr> s_status := StatusIdle \<rparr>),
                       (''s2'', sess0\<lparr> s_sessionId := ''s2'', s_status := StatusIdle \<rparr>),
                       (''s3'', sess0\<lparr> s_sessionId := ''s3'' \<rparr>)],
          persistence := Some \<lparr> sessionsFile = [RecEnd ''s1'' ''t9''], transcriptsDir = [], nameMax = 255 \<rparr>,
          notified := [SessionCall 1 SessEnd (sess0\<lparr> s_status := StatusIdle \<rparr>),
                       SessionCall 2 SessEnd (sess0\<lparr> s_status := StatusIdle \<rparr>),
                       SessionCall 1 SessEnd (sess0\<lparr> s_sessionId := ''s2'', s_status := StatusIdle \<rparr>)] \<rparr>)"
proof -
  let ?s2 = "sess0\<lparr> s_sessionId := ''s2'' \<rparr>"
  let ?s3 = "sess0\<lparr> s_sessionId := ''s3'' \<rparr>"
  have f: "sessionListeners pickyRegistry = [s2Listener, quietListener 2]"
    "sessions pickyRegistry = [(''s1'', sess0), (''s2'', ?s2), (''s3'', ?s3)]"
    "instances pickyRegistry = [(''A'', instA)]"
    "persistence pickyRegistry = Some emptyDataDir"
    "notified pickyRegistry = []"
    by (simp_all add: pickyRegistry_def disconnectRegistry_def)
  have c: "called [s2Listener, quietListener 2] (SessEnd, ?s2\<lparr> s_status := StatusIdle \<rparr>) = [s2Listener]"
    by (simp add: called_def s2Listener_def)
  note t = listener_exception_stops_notification
    [where cbs = "sessionListeners pickyRegistry" and a = "(SessEnd, ?s2\<lparr> s_status := StatusIdle \<rparr>)"
       and st = pickyRegistry and iid = "''A''" and ?i0.0 = instA and seg = "[(''s1'', sess0)]"
       and key = "''s2''" and ?s0.0 = ?s2 and rest = "[(''s3'', ?s3)]" and now = "''t9''"]
  have loop: "forEach (sessionListeners pickyRegistry) (SessEnd, ?s2\<lparr> s_status := StatusIdle \<rparr>) =
     ([(1, (SessEnd, ?s2\<lparr> s_status := StatusIdle \<rparr>))], True)"
    using t [THEN conjunct1] by (simp add: f c s2Listener_def)
  have h: "map_of (instances pickyRegistry) ''A'' = Some instA \<and>
      distinct (map fst (sessions pickyRegistry)) \<and>
      sessions pickyRegistry = [(''s1'', sess0)] @ (''s2'', ?s2) # [(''s3'', ?s3)] \<and>
      s_instanceId ?s2 = ''A'' \<and> s_status ?s2 = StatusActive \<and>
      (\<forall>s \<in> set (ownedActive ''A'' [(''s1'', sess0)]). \<forall>cb \<in> set (sessionListeners pickyRegistry).
         \<not> throws cb (SessEnd, s\<lparr> s_status := StatusIdle \<rparr>)) \<and>
      (\<exists>cb \<in> set (sessionListeners pickyRegistry). throws cb (SessEnd, ?s2\<lparr> s_status := StatusIdle \<rparr>))"
    by (simp add: f ownedActive_def s2Listener_def quietListener_def sess0_def)
  note r = t [THEN conjunct2, THEN conjunct2, THEN conjunct2, THEN conjunct2, THEN conjunct2,
               THEN conjunct2, THEN conjunct2, THEN conjunct2, THEN conjunct1, rule_format, OF h]
  have remove: "removeInstance ''t9'' ''A'' pickyRegistry =
     (Inl ListenerThrew,
      pickyRegistry
        \<lparr> instances := [],
          sessions := [(''s1'', sess0\<lparr> s_status := StatusIdle \<rparr>),
                       (''s2'', ?s2\<lparr> s_status := StatusIdle \<rparr>), (''s3'', ?s3)],
          persistence := Some \<lparr> sessionsFile = [RecEnd ''s1'' ''t9''], transcriptsDir = [], nameMax = 255 \<rparr>,
          notified := [SessionCall 1 SessEnd (sess0\<lparr> s_status := StatusIdle \<rparr>),
                       SessionCall 2 SessEnd (sess0\<lparr> s_status := StatusIdle \<rparr>),
                       SessionCall 1 SessEnd (?s2\<lparr> s_status := StatusIdle \<rparr>)] \<rparr>)"
    unfolding r
    by (simp add: f ownedActive_def called_def endOwned_def emptyDataDir_def s2Listener_def
        quietListener_def sess0_def)
  from loop remove show ?thesis by (rule conjI)
qed

section \<open>One record per session identifier\<close>

lemma removeInstanceLoop_distinct:
  "distinct (map fst (sessions st)) \<Longrightarrow>
   distinct (map fst (sessions (snd (removeInstanceLoop now iid rest st))))"
proof (induction rest arbitrary: st)
  case Nil
  then show ?case by simp
next
  case (Cons p rest)
  obtain key s0 where p: "p = (key, s0)" by (cases p)
  show ?case
  proof (cases "s_instanceId s0 = iid \<and> s_status s0 = StatusActive")
    case False
    then have "removeInstanceLoop now iid (p # rest) st = removeInstanceLoop now iid rest st"
      using p by auto
    with Cons show ?thesis by simp
  next
    case True
    let ?st1 = "st\<lparr> sessions := AList.update key (s0\<lparr> s_status := StatusIdle \<rparr>) (sessions st) \<rparr>"
    let ?n = "notifySession SessEnd (s0\<lparr> s_status := StatusIdle \<rparr>) ?st1"
    have d: "distinct (map fst (sessions (snd ?n)))"
      using Cons.prems by (simp add: distinct_update)
    show ?thesis
    proof (cases "fst ?n")
      case True
      with \<open>s_instanceId s0 = iid \<and> s_status s0 = StatusActive\<close> p d show ?thesis
        by (simp add: Let_def split_beta)
    next
      case False
      have "distinct (map fst (sessions (snd (removeInstanceLoop now iid rest
              (withPersistence (persistSessionEnd now (s_sessionId (s0\<lparr> s_status := StatusIdle \<rparr>))) (snd ?n))))))"
        using d by (intro Cons.IH) simp
      with False \<open>s_instanceId s0 = iid \<and> s_status s0 = StatusActive\<close> p show ?thesis
        by (simp add: Let_def split_beta)
    qed
  qed
qed

lemma foldl_update_distinct:
  "distinct (map fst m) \<Longrightarrow> distinct (map fst (foldl (\<lambda>m (k, v). AList.update k v m) m xs))"
  by (induction xs arbitrary: m) (auto simp: distinct_update)

lemma createInstanceRegistry_distinct: "distinct (map fst (sessions (createInstanceRegistry opt)))"
  by (cases opt) (simp_all add: createInstanceRegistry_def Let_def foldl_update_distinct)

lemma exec_distinct:
  "distinct (map fst (sessions st)) \<Longrightarrow> distinct (map fst (sessions (exec op st)))"
proof (cases op)
  case (RemoveInstance now iid)
  assume d: "distinct (map fst (sessions st))"
  show ?thesis
  proof (cases "map_of (instances st) iid")
    case None
    with d RemoveInstance show ?thesis by (simp add: removeInstance_def)
  next
    case (Some inst)
    have "distinct (map fst (sessions (snd (removeInstanceLoop now iid (sessions st)
             (st\<lparr> instances := AList.delete iid (instances st) \<rparr>)))))"
      using d by (intro removeInstanceLoop_distinct) simp
    with Some RemoveInstance show ?thesis
      by (simp add: removeInstance_def Let_def split_beta split: sum.splits)
  qed
qed (auto simp: registerInstance_def updateHeartbeat_def startSession_def updateSession_def
      endSession_def onInstanceChange_def onSessionChange_def
      onTranscriptEvent_def offInstanceChange_def offSessionChange_def offTranscriptEvent_def
      Let_def split_beta distinct_update split: option.splits)

lemma reachable_distinct: "reachable st \<Longrightarrow> distinct (map fst (sessions st))"
  by (induction rule: reachable.induct) (simp_all add: createInstanceRegistry_distinct exec_distinct)

lemma update_absent: "map_of al k = None \<Longrightarrow> AList.update k v al = al @ [(k, v)]"
  by (induction al) (auto split: if_splits)

text \<open>
  C4. In every reachable registry the session map holds at most one record per session
  identifier. \<^verbatim>\<open>startSession\<close> with an identifier already in the map changes that record in
  place (status active, instance reassigned, every other field and every other record kept,
  no record added); with an unknown identifier it adds one record, stamped with the current
  time, at the end.
\<close>

theorem one_record_per_session_id:
  assumes "reachable st"
  shows "distinct (map fst (sessions st)) \<and>
         (\<forall>existing. map_of (sessions st) (s_sessionId data) = Some existing \<longrightarrow>
            map fst (sessions (snd (startSession now iid data st))) = map fst (sessions st) \<and>
            map_of (sessions (snd (startSession now iid data st))) (s_sessionId data) =
              Some (existing\<lparr> s_status := StatusActive, s_instanceId := iid \<rparr>) \<and>
            (\<forall>k. k \<noteq> s_sessionId data \<longrightarrow>
               map_of (sessions (snd (startSession now iid data st))) k = map_of (sessions st) k)) \<and>
         (map_of (sessions st) (s_sessionId data) = None \<longrightarrow>
            sessions (snd (startSession now iid data st)) =
              sessions st @ [(s_sessionId data, data\<lparr> s_instanceId := iid, s_createdAt := now \<rparr>)])"
proof (intro conjI allI impI)
  show "distinct (map fst (sessions st))"
    using assms by (rule reachable_distinct)
next
  fix existing
  assume ex: "map_of (sessions st) (s_sessionId data) = Some existing"
  then have mem: "s_sessionId data \<in> fst ` set (sessions st)"
    by (force dest: map_of_SomeD)
  show "map fst (sessions (snd (startSession now iid data st))) = map fst (sessions st)"
    using ex mem by (simp add: startSession_def Let_def split_beta update_keys)
  show "map_of (sessions (snd (startSession now iid data st))) (s_sessionId data) =
              Some (existing\<lparr> s_status := StatusActive, s_instanceId := iid \<rparr>)"
    using ex by (simp add: startSession_def Let_def split_beta update_conv')
  fix k
  assume "k \<noteq> s_sessionId data"
  then show "map_of (sessions (snd (startSession now iid data st))) k = map_of (sessions st) k"
    using ex by (simp add: startSession_def Let_def split_beta update_conv')
next
  assume "map_of (sessions st) (s_sessionId data) = None"
  then show "sessions (snd (startSession now iid data st)) =
              sessions st @ [(s_sessionId data, data\<lparr> s_instanceId := iid, s_createdAt := now \<rparr>)]"
    by (simp add: startSession_def Let_def split_beta update_absent)
qed

theorem one_record_per_session_id_witness:
  "map_of (sessions reactivationRegistry) ''s1'' =
     Some (sess0\<lparr> s_createdAt := ''t1'', s_status := StatusIdle \<rparr>) \<and>
   map fst (sessions (snd (startSession ''t3'' ''B'' sess0 reactivationRegistry))) = [''s1''] \<and>
   map_of (sessions (snd (startSession ''t3'' ''B'' sess0 reactivationRegistry))) ''s1'' =
     Some (sess0\<lparr> s_createdAt := ''t1'', s_status := StatusActive, s_instanceId := ''B'' \<rparr>)"
proof -
  have r: "reachable reactivationRegistry"
    unfolding reactivationRegistry_def by (intro reachable.intros)
  have s: "sessions reactivationRegistry = [(''s1'', sess0\<lparr> s_createdAt := ''t1'', s_status := StatusIdle \<rparr>)]"
    by (simp add: reactivationRegistry_def startSession_def endSession_def createInstanceRegistry_def
        sess0_def Let_def split_beta)
  have k: "s_sessionId sess0 = ''s1''" by (simp add: sess0_def)
  from one_record_per_session_id [OF r, of sess0 "''t3''" "''B''"] show ?thesis
    by (simp add: s k sess0_def)
qed

section \<open>Bounded retention\<close>

lemma seen_check:
  "(case map_of seen S of None \<Rightarrow> False | Some X \<Rightarrow> s \<in> X) \<longleftrightarrow> s \<in> ensureSourceIdSet S seen"
  by (simp add: ensureSourceIdSet_def split: option.splits)

lemma addTranscriptEvent_fresh:
  assumes "\<not> (truthy (e_sourceId data) \<and> the (e_sourceId data) \<in> ensureSourceIdSet (e_sessionId data) (seenSourceIds st))"
  shows "fst (addTranscriptEvent eid now data st) \<noteq> Inr None"
  by (simp add: addTranscriptEvent_fresh_cases [OF assms])

lemma addTranscriptEvent_step:
  assumes "\<not> (truthy (e_sourceId data) \<and> the (e_sourceId data) \<in> ensureSourceIdSet (e_sessionId data) (seenSourceIds st))"
  shows "getTranscriptEvents (e_sessionId data) None (snd (addTranscriptEvent eid now data st)) =
           evict (getTranscriptEvents (e_sessionId data) None st @ [stamp (eid, now, data)])"
    and "ensureSourceIdSet (e_sessionId data) (seenSourceIds (snd (addTranscriptEvent eid now data st))) =
           (if truthy (e_sourceId data)
            then insert (the (e_sourceId data)) (ensureSourceIdSet (e_sessionId data) (seenSourceIds st))
            else ensureSourceIdSet (e_sessionId data) (seenSourceIds st))"
    and "persistence (snd (addTranscriptEvent eid now data st)) =
           (if accepts st (e_sessionId data)
            then map_option (logged (stamp (eid, now, data))) (persistence st)
            else persistence st)"
    and "fst (addTranscriptEvent eid now data st) = Inl AppendFailed \<longleftrightarrow> \<not> accepts st (e_sessionId data)"
proof -
  let ?e = "data\<lparr> e_eventId := eid, e_ts := now \<rparr>"
  note eq = addTranscriptEvent_fresh_cases [OF assms, of eid now]
  have t: "getTranscriptEvents sid None (snd (addTranscriptEvent eid now data st)) =
             getTranscriptEvents sid None (remembered ?e st)" for sid
    by (rule getTranscriptEvents_cong) (simp add: eq)
  show "getTranscriptEvents (e_sessionId data) None (snd (addTranscriptEvent eid now data st)) =
           evict (getTranscriptEvents (e_sessionId data) None st @ [stamp (eid, now, data)])"
    by (simp add: t remembered_transcripts)
  have "seenSourceIds (snd (addTranscriptEvent eid now data st)) = seenSourceIds (remembered ?e st)"
    by (simp add: eq)
  then show "ensureSourceIdSet (e_sessionId data) (seenSourceIds (snd (addTranscriptEvent eid now data st))) =
           (if truthy (e_sourceId data)
            then insert (the (e_sourceId data)) (ensureSourceIdSet (e_sessionId data) (seenSourceIds st))
            else ensureSourceIdSet (e_sessionId data) (seenSourceIds st))"
    by (simp add: remembered_seen)
  show "persistence (snd (addTranscriptEvent eid now data st)) =
           (if accepts st (e_sessionId data)
            then map_option (logged (stamp (eid, now, data))) (persistence st)
            else persistence st)"
    by (simp add: eq)
  show "fst (addTranscriptEvent eid now data st) = Inl AppendFailed \<longleftrightarrow> \<not> accepts st (e_sessionId data)"
    by (simp add: eq)
qed

lemma loadTranscriptEvents_persist:
  "e_sessionId e = S \<Longrightarrow>
   loadTranscriptEvents (logged e pm) S = loadTranscriptEvents pm S @ [e]"
  by (simp add: loadTranscriptEvents_def logged_def readLines_def update_conv')

lemma drop_window:
  fixes xs r :: "'a list"
  shows "drop (length (drop (length xs - m) xs) + length r - m) (drop (length xs - m) xs @ r) =
         drop (length xs + length r - m) (xs @ r)"
proof (cases "length xs \<le> m")
  case True
  then show ?thesis by simp
next
  case False
  then have "length xs - (length xs - m) = m" by simp
  then have "drop (length (drop (length xs - m) xs) + length r - m) (drop (length xs - m) xs @ r) =
        drop (length r) (drop (length xs - m) xs @ r)"
    by simp
  also have "\<dots> = drop (length r) (drop (length xs - m) (xs @ r))"
    by simp
  also have "\<dots> = drop (length r + (length xs - m)) (xs @ r)"
    by (simp only: drop_drop)
  also have "length r + (length xs - m) = length xs + length r - m"
    using False by simp
  finally show ?thesis .
qed

lemma submitAll_window:
  assumes "subs \<noteq> [] \<or> length (getTranscriptEvents S None st) \<le> MAX_EVENTS_PER_SESSION"
    and "\<forall>sub \<in> set subs. e_sessionId (snd (snd sub)) = S"
    and "distinct (sourceIdList (map (\<lambda>sub. snd (snd sub)) subs))"
    and "set (sourceIdList (map (\<lambda>sub. snd (snd sub)) subs)) \<inter> ensureSourceIdSet S (seenSourceIds st) = {}"
  shows "getTranscriptEvents S None (submitAll subs st) =
           drop (length (getTranscriptEvents S None st) + length subs - MAX_EVENTS_PER_SESSION)
             (getTranscriptEvents S None st @ map stamp subs) \<and>
         (if accepts st S
          then map_option (\<lambda>pm. loadTranscriptEvents pm S) (persistence (submitAll subs st)) =
                 map_option (\<lambda>pm. loadTranscriptEvents pm S @ map stamp subs) (persistence st)
          else persistence (submitAll subs st) = persistence st)"
  using assms
proof (induction subs arbitrary: st)
  case Nil
  then show ?case by (simp add: option.map_ident)
next
  case (Cons sub subs)
  obtain eid now data where sub: "sub = (eid, now, data)" by (cases sub)
  let ?st1 = "snd (addTranscriptEvent eid now data st)"
  let ?old = "getTranscriptEvents S None st"
  let ?e = "stamp (eid, now, data)"
  have S: "e_sessionId data = S" using Cons.prems(2) sub by simp
  have fresh: "\<not> (truthy (e_sourceId data) \<and>
                  the (e_sourceId data) \<in> ensureSourceIdSet (e_sessionId data) (seenSourceIds st))"
    using Cons.prems(4) sub S by auto
  note step = addTranscriptEvent_step [OF fresh, of eid now, unfolded S]
  have old1: "getTranscriptEvents S None ?st1 =
                drop (length (?old @ [?e]) - MAX_EVENTS_PER_SESSION) (?old @ [?e])"
    using step(1) by (simp add: evict_drop)
  have len1: "length (getTranscriptEvents S None ?st1) \<le> MAX_EVENTS_PER_SESSION"
    unfolding old1 by simp
  have ih: "getTranscriptEvents S None (submitAll subs ?st1) =
           drop (length (getTranscriptEvents S None ?st1) + length subs - MAX_EVENTS_PER_SESSION)
             (getTranscriptEvents S None ?st1 @ map stamp subs) \<and>
         (if accepts ?st1 S
          then map_option (\<lambda>pm. loadTranscriptEvents pm S) (persistence (submitAll subs ?st1)) =
                 map_option (\<lambda>pm. loadTranscriptEvents pm S @ map stamp subs) (persistence ?st1)
          else persistence (submitAll subs ?st1) = persistence ?st1)"
  proof (rule Cons.IH)
    show "subs \<noteq> [] \<or> length (getTranscriptEvents S None ?st1) \<le> MAX_EVENTS_PER_SESSION"
      using len1 by simp
    show "\<forall>sub\<in>set subs. e_sessionId (snd (snd sub)) = S"
      using Cons.prems(2) by simp
    show "distinct (sourceIdList (map (\<lambda>sub. snd (snd sub)) subs))"
      using Cons.prems(3) sub by (simp split: if_splits)
    show "set (sourceIdList (map (\<lambda>sub. snd (snd sub)) subs)) \<inter> ensureSourceIdSet S (seenSourceIds ?st1) = {}"
      using Cons.prems(3,4) sub step(2) by (auto split: if_splits)
  qed
  have mem: "getTranscriptEvents S None (submitAll (sub # subs) st) =
           drop (length ?old + length (sub # subs) - MAX_EVENTS_PER_SESSION)
             (?old @ map stamp (sub # subs))"
  proof -
    have "getTranscriptEvents S None (submitAll (sub # subs) st) =
            drop (length (drop (length (?old @ [?e]) - MAX_EVENTS_PER_SESSION) (?old @ [?e])) + length (map stamp subs)
                    - MAX_EVENTS_PER_SESSION)
              (drop (length (?old @ [?e]) - MAX_EVENTS_PER_SESSION) (?old @ [?e]) @ map stamp subs)"
      using ih old1 sub by simp
    also have "\<dots> = drop (length (?old @ [?e]) + length (map stamp subs) - MAX_EVENTS_PER_SESSION)
                       ((?old @ [?e]) @ map stamp subs)"
      by (rule drop_window)
    finally show ?thesis using sub by simp
  qed
  have log: "if accepts st S
          then map_option (\<lambda>pm. loadTranscriptEvents pm S) (persistence (submitAll (sub # subs) st)) =
                 map_option (\<lambda>pm. loadTranscriptEvents pm S @ map stamp (sub # subs)) (persistence st)
          else persistence (submitAll (sub # subs) st) = persistence st"
  proof (cases "accepts st S")
    case True
    have "e_sessionId ?e = S" using S by simp
    then have "\<And>pm. loadTranscriptEvents (logged ?e pm) S = loadTranscriptEvents pm S @ [?e]"
      by (rule loadTranscriptEvents_persist)
    then show ?thesis
      using True ih step(3) sub by (cases "persistence st") simp_all
  next
    case False
    then show ?thesis using ih step(3) sub by simp
  qed
  from mem log show ?case by simp
qed

text \<open>
  C2 (amended). For a session whose transcript file the file system takes, submitting events
  with distinct source ids keeps, in memory, exactly the last \<open>MAX_EVENTS_PER_SESSION\<close> =
  10,000 of the session's events, the oldest evicted first, while the session's file in the
  durable log holds every accepted event: eviction removes nothing from the log. The example
  submits 10,001 events to a fresh registry: 10,000 stay in memory (all but the first) and
  10,001 are on disk.
\<close>

theorem bounded_retention:
  assumes "subs \<noteq> []"
    and "\<forall>sub \<in> set subs. e_sessionId (snd (snd sub)) = S"
    and "distinct (sourceIdList (map (\<lambda>sub. snd (snd sub)) subs))"
    and "set (sourceIdList (map (\<lambda>sub. snd (snd sub)) subs)) \<inter> ensureSourceIdSet S (seenSourceIds st) = {}"
    and "persistence st = Some pm"
    and "length (getTranscriptFile S) \<le> nameMax pm"
  shows "getTranscriptEvents S None (submitAll subs st) =
           drop (length (getTranscriptEvents S None st) + length subs - MAX_EVENTS_PER_SESSION)
             (getTranscriptEvents S None st @ map stamp subs) \<and>
         length (getTranscriptEvents S None (submitAll subs st)) =
           min MAX_EVENTS_PER_SESSION (length (getTranscriptEvents S None st) + length subs) \<and>
         map_option (\<lambda>pm. loadTranscriptEvents pm S) (persistence (submitAll subs st)) =
           Some (loadTranscriptEvents pm S @ map stamp subs)"
proof -
  from assms(1) have "subs \<noteq> [] \<or> length (getTranscriptEvents S None st) \<le> MAX_EVENTS_PER_SESSION"
    by simp
  moreover from assms(5,6) have "accepts st S" by (simp add: accepts_def)
  ultimately show ?thesis
    using submitAll_window [of subs S st] assms(2-5) by auto
qed

lemma length_submissions: "length (submissions n) = n"
  by (simp add: submissions_def)

lemma submissions_session: "\<forall>sub \<in> set (submissions n). e_sessionId (snd (snd sub)) = ''s1''"
  by (simp add: submissions_def mkSubmission_def ev0_def)

lemma sourceIdList_map:
  "\<forall>x \<in> set xs. e_sourceId (f x) = Some (g x) \<and> g x \<noteq> [] \<Longrightarrow> sourceIdList (map f xs) = map g xs"
  by (induction xs) auto

lemma submissions_sourceIds:
  "sourceIdList (map (\<lambda>sub. snd (snd sub)) (submissions n)) = map (\<lambda>i. replicate (Suc i) CHR ''m'') [0..<n]"
proof -
  have "sourceIdList (map (\<lambda>i. snd (snd (mkSubmission i))) [0..<n]) =
          map (\<lambda>i. replicate (Suc i) CHR ''m'') [0..<n]"
    by (rule sourceIdList_map) (simp add: mkSubmission_def)
  then show ?thesis by (simp add: submissions_def comp_def)
qed

lemma submissions_distinct: "distinct (sourceIdList (map (\<lambda>sub. snd (snd sub)) (submissions n)))"
proof -
  have "inj_on (\<lambda>i. replicate (Suc i) CHR ''m'') (set [0..<n])"
  proof (rule inj_onI)
    fix i j
    assume "replicate (Suc i) CHR ''m'' = replicate (Suc j) CHR ''m''"
    then have "length (replicate (Suc i) CHR ''m'') = length (replicate (Suc j) CHR ''m'')"
      by (rule arg_cong)
    then show "i = j" by simp
  qed
  then show ?thesis by (simp add: submissions_sourceIds distinct_map)
qed

lemma freshRegistry:
  "getTranscriptEvents S None (createInstanceRegistry (Some emptyDataDir)) = []"
  "seenSourceIds (createInstanceRegistry (Some emptyDataDir)) = []"
  "persistence (createInstanceRegistry (Some emptyDataDir)) = Some emptyDataDir"
  "loadTranscriptEvents emptyDataDir S = []"
  by (simp_all add: getTranscriptEvents_def createInstanceRegistry_def emptyDataDir_def loadSessions_def
      loadAllTranscriptEvents_def loadTranscriptEvents_def readLines_def Let_def)

lemma longSubmissions_facts:
  "length (longSubmissions n) = n"
  "\<forall>sub \<in> set (longSubmissions n). e_sessionId (snd (snd sub)) = longId"
  "sourceIdList (map (\<lambda>sub. snd (snd sub)) (longSubmissions n)) =
     sourceIdList (map (\<lambda>sub. snd (snd sub)) (submissions n))"
proof -
  show "length (longSubmissions n) = n" by (simp add: longSubmissions_def)
  show "\<forall>sub \<in> set (longSubmissions n). e_sessionId (snd (snd sub)) = longId"
    by (simp add: longSubmissions_def)
  have "sourceIdList (map (\<lambda>i. snd (snd (replicate (Suc i) CHR ''e'', ''t'',
               ev0\<lparr> e_sessionId := longId, e_sourceId := Some (replicate (Suc i) CHR ''m'') \<rparr>))) [0..<n]) =
          map (\<lambda>i. replicate (Suc i) CHR ''m'') [0..<n]"
    by (rule sourceIdList_map) simp
  then show "sourceIdList (map (\<lambda>sub. snd (snd sub)) (longSubmissions n)) =
     sourceIdList (map (\<lambda>sub. snd (snd sub)) (submissions n))"
    by (simp add: longSubmissions_def submissions_sourceIds comp_def)
qed

lemma longId_refused: "\<not> accepts (createInstanceRegistry (Some emptyDataDir)) longId"
  by (simp add: accepts_def freshRegistry) (simp add: getTranscriptFile_def longId_def emptyDataDir_def)

text \<open>
  The session identifier of 250 letters \<open>a\<close> passes the sanitiser unchanged and gives a file
  name of 256 characters, which the file system refuses: every submission throws after the
  event has been added in memory. After 10,001 submissions with distinct source ids the
  registry holds 10,000 events for the session and the durable log none.
\<close>

theorem long_session_id_not_logged:
  "list_all safeChar longId \<and> length (getTranscriptFile longId) = 256 \<and>
   fst (addTranscriptEvent ''e1'' ''t'' (ev0\<lparr> e_sessionId := longId \<rparr>)
          (createInstanceRegistry (Some emptyDataDir))) = Inl AppendFailed \<and>
   length (getTranscriptEvents longId None
             (submitAll (longSubmissions 10001) (createInstanceRegistry (Some emptyDataDir)))) = 10000 \<and>
   persistence (submitAll (longSubmissions 10001) (createInstanceRegistry (Some emptyDataDir))) =
     Some emptyDataDir \<and>
   loadTranscriptEvents emptyDataDir longId = []"
proof -
  let ?st = "createInstanceRegistry (Some emptyDataDir)"
  have safe: "list_all safeChar longId"
    by (simp add: longId_def list_all_iff safeChar_def)
  have len: "length (getTranscriptFile longId) = 256"
    by (simp add: getTranscriptFile_def longId_def)
  have first: "fst (addTranscriptEvent ''e1'' ''t'' (ev0\<lparr> e_sessionId := longId \<rparr>) ?st) = Inl AppendFailed"
    using longId_refused by (simp add: addTranscriptEvent_cases Let_def ev0_def)
  have h1: "longSubmissions 10001 \<noteq> [] \<or>
      length (getTranscriptEvents longId None ?st) \<le> MAX_EVENTS_PER_SESSION"
    by (simp add: freshRegistry)
  have h3: "distinct (sourceIdList (map (\<lambda>sub. snd (snd sub)) (longSubmissions 10001)))"
    by (simp only: longSubmissions_facts(3) submissions_distinct)
  have h4: "set (sourceIdList (map (\<lambda>sub. snd (snd sub)) (longSubmissions 10001))) \<inter>
              ensureSourceIdSet longId (seenSourceIds ?st) = {}"
    by (simp add: freshRegistry ensureSourceIdSet_def)
  note w = submitAll_window [OF h1 longSubmissions_facts(2) h3 h4]
  from w longId_refused
  have "length (getTranscriptEvents longId None (submitAll (longSubmissions 10001) ?st)) = 10000"
    and "persistence (submitAll (longSubmissions 10001) ?st) = Some emptyDataDir"
    by (simp_all add: freshRegistry longSubmissions_facts(1) MAX_EVENTS_PER_SESSION_def)
  with safe len first show ?thesis by (simp add: freshRegistry)
qed

theorem bounded_retention_witness:
  "getTranscriptEvents ''s1'' None (submitAll (submissions 10001) (createInstanceRegistry (Some emptyDataDir))) =
     map stamp (tl (submissions 10001)) \<and>
   length (getTranscriptEvents ''s1'' None
             (submitAll (submissions 10001) (createInstanceRegistry (Some emptyDataDir)))) = 10000 \<and>
   map_option (\<lambda>pm. loadTranscriptEvents pm ''s1'')
     (persistence (submitAll (submissions 10001) (createInstanceRegistry (Some emptyDataDir)))) =
     Some (map stamp (submissions 10001)) \<and>
   length (map stamp (submissions 10001)) = 10001"
proof -
  let ?st = "createInstanceRegistry (Some emptyDataDir)"
  have h1: "submissions 10001 \<noteq> []"
    using length_submissions [of 10001] by auto
  have h4: "set (sourceIdList (map (\<lambda>sub. snd (snd sub)) (submissions 10001))) \<inter>
              ensureSourceIdSet ''s1'' (seenSourceIds ?st) = {}"
    by (simp add: freshRegistry ensureSourceIdSet_def)
  have h6: "length (getTranscriptFile ''s1'') \<le> nameMax emptyDataDir"
    by (simp add: getTranscriptFile_def emptyDataDir_def)
  note t = bounded_retention [OF h1 submissions_session submissions_distinct h4 freshRegistry(3) h6]
  have d: "drop (Suc 0) (map stamp (submissions 10001)) = map stamp (tl (submissions 10001))"
    by (simp add: drop_Suc map_tl)
  from t show ?thesis
    by (simp add: freshRegistry length_submissions d MAX_EVENTS_PER_SESSION_def)
qed

section \<open>The disabled action\<close>

lemma wsSend_frame [simp]:
  "registry (snd (wsSend ws d h)) = registry h"
  "clients (snd (wsSend ws d h)) = clients h"
  "extensions (snd (wsSend ws d h)) = extensions h"
  "pendingMessageRequests (snd (wsSend ws d h)) = pendingMessageRequests h"
  "pendingEnabledModelsRequests (snd (wsSend ws d h)) = pendingEnabledModelsRequests h"
  "pendingCreateChatRequests (snd (wsSend ws d h)) = pendingCreateChatRequests h"
  "readyState (snd (wsSend ws d h)) = readyState h"
  "closed (snd (wsSend ws d h)) = closed h"
  by (simp_all add: wsSend_def split: ReadyState.splits)

lemma wsSend_sent:
  "sent (snd (wsSend ws d h)) = sent h @ (if readyState h ws = OPEN then [(ws, d)] else [])"
  by (simp add: wsSend_def split: ReadyState.splits)

lemma wsSend_result: "isl (fst (wsSend ws d h)) \<longleftrightarrow> readyState h ws = CONNECTING"
  by (simp add: wsSend_def split: ReadyState.splits)

text \<open>
  C9. A consumer's \<^verbatim>\<open>send_message\<close> is never forwarded: whatever the session, the instances
  and the producers connected, the only thing the hub does is one send, to that consumer's
  socket, of the fixed failure result (\<^verbatim>\<open>success: false\<close> with the fixed error text); it
  sends nothing on any other socket, changes no pending-request map and does not touch the
  registry. (If the consumer's own socket is not open, nothing is sent at all.)
\<close>

theorem send_message_always_rejected:
  "sent (snd (onClientData ws (Some (Send_message sessionId text)) env h)) =
     sent h @
     (if readyState h ws = OPEN
      then [(ws, ToClient (Send_message_result sessionId False None
                    (Some ''Send-message to an existing session is temporarily disabled. Use New Chat instead.'')))]
      else []) \<and>
   pendingMessageRequests (snd (onClientData ws (Some (Send_message sessionId text)) env h)) =
     pendingMessageRequests h \<and>
   pendingEnabledModelsRequests (snd (onClientData ws (Some (Send_message sessionId text)) env h)) =
     pendingEnabledModelsRequests h \<and>
   pendingCreateChatRequests (snd (onClientData ws (Some (Send_message sessionId text)) env h)) =
     pendingCreateChatRequests h \<and>
   registry (snd (onClientData ws (Some (Send_message sessionId text)) env h)) = registry h \<and>
   snd (onClientData ws (Some (Send_message sessionId text)) env h) =
     snd (handleClientMessage ws (Send_message sessionId text) env h)"
  by (cases "readyState h ws") (simp_all add: onClientData_def handleClientMessage_def wsSend_def)

theorem send_message_always_rejected_witness:
  "sent (snd (onClientData 1 (Some (Send_message ''s1'' ''continue'')) env0 connectedHub)) =
     [(1, ToClient (Send_message_result ''s1'' False None
             (Some ''Send-message to an existing session is temporarily disabled. Use New Chat instead.'')))] \<and>
   pendingMessageRequests (snd (onClientData 1 (Some (Send_message ''s1'' ''continue'')) env0 connectedHub)) = []"
proof -
  note t = send_message_always_rejected [of 1 "''s1''" "''continue''" env0 connectedHub]
  have e: "readyState connectedHub 1 = OPEN" and s: "sent connectedHub = []"
    and p: "pendingMessageRequests connectedHub = []"
    by (simp_all add: connectedHub_def createWebSocketManager_def)
  from t [THEN conjunct1] t [THEN conjunct2, THEN conjunct1] show ?thesis
    by (simp only: e s p if_True append_Nil simp_thms)
qed

section \<open>Broadcast and sockets that are gone\<close>

lemma broadcastLoop_open:
  assumes "\<forall>c \<in> set cs. readyState h (c_ws c) \<noteq> CONNECTING"
  shows "broadcastLoop eligible data cs h =
           (Inr (),
            h\<lparr> sent := sent h @
                  map (\<lambda>c. (c_ws c, data))
                    (filter (\<lambda>c. eligible c \<and> readyState h (c_ws c) = OPEN) cs) \<rparr>)"
  using assms
proof (induction cs arbitrary: h)
  case Nil
  show ?case by simp
next
  case (Cons c cs)
  show ?case
  proof (cases "eligible c")
    case False
    with Cons.IH [of h] Cons.prems show ?thesis by simp
  next
    case True
    from Cons.prems have nc: "readyState h (c_ws c) \<noteq> CONNECTING" by simp
    show ?thesis
    proof (cases "readyState h (c_ws c) = OPEN")
      case isOpen: True
      let ?h1 = "h\<lparr> sent := sent h @ [(c_ws c, data)] \<rparr>"
      have "broadcastLoop eligible data (c # cs) h = broadcastLoop eligible data cs ?h1"
        using True isOpen by (simp add: wsSend_def)
      moreover have "\<forall>c \<in> set cs. readyState ?h1 (c_ws c) \<noteq> CONNECTING"
        using Cons.prems by simp
      ultimately show ?thesis
        using Cons.IH [of ?h1] True isOpen by simp
    next
      case False
      with nc have "wsSend (c_ws c) data h = (Inr (), h)"
        by (cases "readyState h (c_ws c)") (simp_all add: wsSend_def)
      then have "broadcastLoop eligible data (c # cs) h = broadcastLoop eligible data cs h"
        using True by simp
      with Cons.IH [of h] Cons.prems False show ?thesis by simp
    qed
  qed
qed

text \<open>
  C8. A consumer socket that is gone does not stop a broadcast. The loops call
  \<^verbatim>\<open>client.ws.send(data)\<close> with no callback and no \<^verbatim>\<open>try\<close>; on a socket that is closing or
  closed the call returns without sending and without throwing, so there is nothing to catch
  and the loop goes on: as long as no consumer socket is still connecting, which an accepted
  connection never is, each of the three broadcasts returns normally and sends the message,
  in the order of the client set, to exactly the eligible consumers whose socket is open.
\<close>

theorem broadcast_passes_sockets_that_are_gone:
  assumes "\<forall>c \<in> set (clients h). readyState h (c_ws c) \<noteq> CONNECTING"
  shows "broadcastToInstanceSubscribers message h =
           (Inr (),
            h\<lparr> sent := sent h @
                  map (\<lambda>c. (c_ws c, ToClient message))
                    (filter (\<lambda>c. (c_authenticated c \<and> c_subscribedInstances c) \<and>
                                  readyState h (c_ws c) = OPEN) (clients h)) \<rparr>) \<and>
         broadcastToSessionSubscribers sessionId message h =
           (Inr (),
            h\<lparr> sent := sent h @
                  map (\<lambda>c. (c_ws c, ToClient message))
                    (filter (\<lambda>c. (c_authenticated c \<and> sessionId \<in> c_subscribedSessions c) \<and>
                                  readyState h (c_ws c) = OPEN) (clients h)) \<rparr>) \<and>
         broadcastToClients message h =
           (Inr (),
            h\<lparr> sent := sent h @
                  map (\<lambda>c. (c_ws c, ToClient message))
                    (filter (\<lambda>c. c_authenticated c \<and> readyState h (c_ws c) = OPEN) (clients h)) \<rparr>)"
  unfolding broadcastToInstanceSubscribers_def broadcastToSessionSubscribers_def broadcastToClients_def
  using assms by (simp add: broadcastLoop_open)

theorem broadcast_passes_sockets_that_are_gone_witness:
  "readyState goneFirstHub 1 = CLOSED \<and>
   broadcastToInstanceSubscribers (Instance_disconnect ''A'') goneFirstHub =
     (Inr (), goneFirstHub\<lparr> sent := [(2, ToClient (Instance_disconnect ''A''))] \<rparr>) \<and>
   broadcastToSessionSubscribers ''s1'' (Transcript_event ev0) goneFirstHub =
     (Inr (), goneFirstHub\<lparr> sent := [(2, ToClient (Transcript_event ev0)), (3, ToClient (Transcript_event ev0))] \<rparr>)"
proof -
  have c: "clients goneFirstHub =
             [clientOn 1, clientOn 2, (clientOn 3)\<lparr> c_subscribedInstances := False \<rparr>]"
    and r: "readyState goneFirstHub = (\<lambda>ws. if ws = 1 then CLOSED else OPEN)"
    and s: "sent goneFirstHub = []"
    by (simp_all add: goneFirstHub_def createWebSocketManager_def)
  have h: "\<forall>c \<in> set (clients goneFirstHub). readyState goneFirstHub (c_ws c) \<noteq> CONNECTING"
    by (simp add: c r)
  note t = broadcast_passes_sockets_that_are_gone [OF h]
  have "broadcastToInstanceSubscribers (Instance_disconnect ''A'') goneFirstHub =
     (Inr (), goneFirstHub\<lparr> sent := [(2, ToClient (Instance_disconnect ''A''))] \<rparr>)"
    unfolding t [THEN conjunct1] by (simp add: c r s clientOn_def)
  moreover have "broadcastToSessionSubscribers ''s1'' (Transcript_event ev0) goneFirstHub =
     (Inr (), goneFirstHub\<lparr> sent := [(2, ToClient (Transcript_event ev0)), (3, ToClient (Transcript_event ev0))] \<rparr>)"
    unfolding t [THEN conjunct2, THEN conjunct1] by (simp add: c r s clientOn_def)
  ultimately show ?thesis by (simp add: r)
qed

section \<open>Request correlation\<close>

lemma quiet_refl [simp]: "quiet k r h h"
  by (simp add: quiet_def)

lemma quiet_trans: "quiet k r h h1 \<Longrightarrow> quiet k r h1 h2 \<Longrightarrow> quiet k r h h2"
  by (auto simp: quiet_def)

lemma quiet_results: "quiet k r h h' \<Longrightarrow> results k r h' = results k r h"
  by (auto simp: quiet_def results_def)

lemma quiet_pending: "quiet k r h h' \<Longrightarrow> pendingOf k h' = pendingOf k h"
  by (simp add: quiet_def)

lemma pendingOf_fields [simp]:
  "pendingOf k (h\<lparr> sent := s \<rparr>) = pendingOf k h"
  "pendingOf k (h\<lparr> registry := reg \<rparr>) = pendingOf k h"
  "pendingOf k (h\<lparr> clients := cs \<rparr>) = pendingOf k h"
  "pendingOf k (h\<lparr> extensions := xs \<rparr>) = pendingOf k h"
  "pendingOf k (h\<lparr> closed := cl \<rparr>) = pendingOf k h"
  "pendingOf k (h\<lparr> readyState := se \<rparr>) = pendingOf k h"
  "pendingOf k (h\<lparr> pendingMessageRequests := pm \<rparr>) = pendingOf k h"
  by (cases k; simp add: pendingOf.simps)+

lemma pendingOf_wsSend [simp]: "pendingOf k (snd (wsSend ws d h)) = pendingOf k h"
  by (simp add: wsSend_def split: ReadyState.splits)

lemma quiet_wsSend: "\<not> isResult k r d \<Longrightarrow> quiet k r h (snd (wsSend ws d h))"
  by (auto simp: quiet_def wsSend_def split: ReadyState.splits)

lemma quiet_trySend: "\<not> isResult k r d \<Longrightarrow> quiet k r h (trySend ws d h)"
  by (simp add: trySend_def quiet_wsSend)

lemma quiet_sendEach: "\<forall>d \<in> set ds. \<not> isResult k r d \<Longrightarrow> quiet k r h (snd (sendEach ws ds h))"
proof (induction ds arbitrary: h)
  case Nil
  show ?case by simp
next
  case (Cons d ds)
  have q1: "quiet k r h (snd (wsSend ws d h))" using Cons.prems by (simp add: quiet_wsSend)
  show ?case
  proof (cases "fst (wsSend ws d h)")
    case (Inl e)
    with q1 show ?thesis by (simp add: split_beta)
  next
    case (Inr u)
    have "quiet k r (snd (wsSend ws d h)) (snd (sendEach ws ds (snd (wsSend ws d h))))"
      using Cons.prems by (intro Cons.IH) simp
    with q1 Inr show ?thesis by (auto simp: split_beta intro: quiet_trans)
  qed
qed

lemma quiet_broadcastLoop:
  "\<not> isResult k r d \<Longrightarrow> quiet k r h (snd (broadcastLoop eligible d cs h))"
proof (induction cs arbitrary: h)
  case Nil
  show ?case by simp
next
  case (Cons c cs)
  show ?case
  proof (cases "eligible c")
    case False
    with Cons show ?thesis by simp
  next
    case True
    have q1: "quiet k r h (snd (wsSend (c_ws c) d h))" using Cons.prems by (simp add: quiet_wsSend)
    show ?thesis
    proof (cases "fst (wsSend (c_ws c) d h)")
      case (Inl e)
      with q1 True show ?thesis by (simp add: split_beta)
    next
      case (Inr u)
      have "quiet k r (snd (wsSend (c_ws c) d h))
              (snd (broadcastLoop eligible d cs (snd (wsSend (c_ws c) d h))))"
        using Cons.prems by (intro Cons.IH)
      with q1 Inr True show ?thesis by (auto simp: split_beta intro: quiet_trans)
    qed
  qed
qed

lemma quiet_hubOnInstanceChange: "quiet k r h (snd (hubOnInstanceChange a h))"
  by (simp add: hubOnInstanceChange_def broadcastToInstanceSubscribers_def quiet_broadcastLoop)

lemma quiet_hubOnTranscriptEvent: "quiet k r h (snd (hubOnTranscriptEvent e h))"
  by (simp add: hubOnTranscriptEvent_def broadcastToSessionSubscribers_def quiet_broadcastLoop)

lemma quiet_hubOnSessionChange: "quiet k r h (snd (hubOnSessionChange a h))"
proof -
  let ?b = "broadcastToSessionSubscribers (s_sessionId (snd a)) (Session_update (snd a)) h"
  have q1: "quiet k r h (snd ?b)"
    by (simp add: broadcastToSessionSubscribers_def quiet_broadcastLoop)
  have q2: "quiet k r (snd ?b) (snd (broadcastToInstanceSubscribers (Session_update (snd a)) (snd ?b)))"
    by (simp add: broadcastToInstanceSubscribers_def quiet_broadcastLoop)
  show ?thesis
    using q1 quiet_trans [OF q1 q2]
    by (cases "fst ?b") (simp_all add: hubOnSessionChange_def split_beta)
qed

lemma quiet_deliver: "quiet k r h (deliver h c)"
  by (cases c) (simp_all add: quiet_hubOnInstanceChange quiet_hubOnSessionChange quiet_hubOnTranscriptEvent)

lemma quiet_foldl_deliver: "quiet k r h (foldl deliver h cs)"
proof (induction cs arbitrary: h)
  case Nil
  show ?case by simp
next
  case (Cons c cs)
  from quiet_deliver [of k r h c] Cons [of "deliver h c"] show ?case
    by (auto intro: quiet_trans)
qed

lemma quiet_registry_update: "quiet k r h (h\<lparr> registry := reg \<rparr>)"
  by (simp add: quiet_def)

lemma quiet_withRegistry: "quiet k r h (snd (withRegistry op h))"
proof -
  have "quiet k r h (foldl deliver h (notified (snd (op (hubListeners h (registry h))))))"
    by (rule quiet_foldl_deliver)
  then have "quiet k r h ((foldl deliver h (notified (snd (op (hubListeners h (registry h))))))
                            \<lparr> registry := snd (op (hubListeners h (registry h))) \<rparr>)"
    by (auto intro: quiet_trans quiet_registry_update)
  then show ?thesis by (simp add: withRegistry_def split_beta Let_def)
qed

lemma quiet_discard: "snd (discard x) = snd x"
  by (cases x) (simp add: discard_def split: sum.splits)

lemma quiet_fields:
  "quiet k r h (h\<lparr> clients := cs \<rparr>)"
  "quiet k r h (h\<lparr> extensions := xs \<rparr>)"
  "quiet k r h (h\<lparr> closed := cl \<rparr>)"
  "quiet k r h (h\<lparr> readyState := se \<rparr>)"
  "quiet k r h (h\<lparr> pendingMessageRequests := pm \<rparr>)"
  by (simp_all add: quiet_def)

lemma tracks_refl [simp]: "tracks k r h h"
  by (simp add: tracks_def split: option.splits)

lemma tracks_trans: "tracks k r h h1 \<Longrightarrow> tracks k r h1 h2 \<Longrightarrow> tracks k r h h2"
  by (auto simp: tracks_def split: option.splits)

lemma quiet_tracks: "quiet k r h h' \<Longrightarrow> tracks k r h h'"
  by (auto simp: tracks_def quiet_results quiet_pending split: option.splits)

lemma pendingOf_keys [simp]:
  "map fst (pendingOf EnabledModels h) = map fst (pendingEnabledModelsRequests h)"
  "map fst (pendingOf CreateChat h) = map fst (pendingCreateChatRequests h)"
  by (simp_all add: pendingOf.simps comp_def split_beta)

lemma pendingOf_other [simp]:
  "pendingOf CreateChat (h\<lparr> pendingEnabledModelsRequests := pe \<rparr>) = pendingOf CreateChat h"
  "pendingOf EnabledModels (h\<lparr> pendingCreateChatRequests := pc \<rparr>) = pendingOf EnabledModels h"
  by (simp_all add: pendingOf.simps)

lemma map_of_pendingOf:
  "map_of (pendingOf EnabledModels h) r =
     map_option (\<lambda>p. (pe_clientWs p, pe_timestamp p)) (map_of (pendingEnabledModelsRequests h) r)"
  "map_of (pendingOf CreateChat h) r =
     map_option (\<lambda>p. (pc_clientWs p, pc_timestamp p)) (map_of (pendingCreateChatRequests h) r)"
  by (simp_all add: pendingOf.simps map_of_map [THEN fun_cong, unfolded comp_def] split_beta)

lemma handleClientMessage_simps:
  "handleClientMessage ws Subscribe_instances env h =
     (let h1 = updateClient ws (\<lambda>c. c\<lparr> c_subscribedInstances := True \<rparr>) h
      in case sendEach ws (map (\<lambda>i. ToClient (Instance_update i)) (getAllInstances (registry h1))) h1 of
           (Inl e, h2) \<Rightarrow> (Inl e, h2)
         | (Inr _, h2) \<Rightarrow>
             sendEach ws (map (\<lambda>s. ToClient (Session_update s)) (getAllSessions (registry h2))) h2)"
  "handleClientMessage ws Unsubscribe_instances env h =
     (Inr (), updateClient ws (\<lambda>c. c\<lparr> c_subscribedInstances := False \<rparr>) h)"
  "handleClientMessage ws (Subscribe_session sessionId) env h =
     (let h1 = updateClient ws (\<lambda>c. c\<lparr> c_subscribedSessions := insert sessionId (c_subscribedSessions c) \<rparr>) h
      in sendEach ws
           (map (\<lambda>e. ToClient (Transcript_event e)) (getTranscriptEvents sessionId None (registry h1))) h1)"
  "handleClientMessage ws (Unsubscribe_session sessionId) env h =
     (Inr (), updateClient ws (\<lambda>c. c\<lparr> c_subscribedSessions := c_subscribedSessions c - {sessionId} \<rparr>) h)"
  "handleClientMessage ws Ping env h = wsSend ws (ToClient Pong) h"
  "handleClientMessage ws (Send_message sessionId text) env h =
     wsSend ws
       (ToClient (Send_message_result sessionId False None
          (Some ''Send-message to an existing session is temporarily disabled. Use New Chat instead.'')))
       h"
  by (simp_all add: handleClientMessage_def)

lemma handleClientMessage_requests:
  "handleClientMessage ws (Get_enabled_models requestId targetInstanceId) env h =
     (case findExtension targetInstanceId h of
        None \<Rightarrow>
          wsSend ws
            (ToClient (Enabled_models_result requestId targetInstanceId False None
               (Some ''Extension not connected for this instance'')))
            h
      | Some targetExtension \<Rightarrow>
          (let h1 = h\<lparr> pendingEnabledModelsRequests :=
                        AList.update requestId
                          \<lparr> pe_clientWs = ws, pe_instanceId = targetInstanceId,
                            pe_requestId = requestId, pe_timestamp = nowMs env \<rparr>
                          (pendingEnabledModelsRequests h) \<rparr>
           in case wsSend (x_ws targetExtension)
                     (ToExtension (Get_enabled_models_request requestId targetInstanceId)) h1 of
                (Inr _, h2) \<Rightarrow> (Inr (), h2)
              | (Inl err, h2) \<Rightarrow>
                  (Inr (),
                   trySend ws
                     (ToClient (Enabled_models_result requestId targetInstanceId False None
                        (Some (''Failed to forward to extension: '' @
                               (case err of SendFailed t \<Rightarrow> t | _ \<Rightarrow> '''')))))
                     (h2\<lparr> pendingEnabledModelsRequests :=
                            AList.delete requestId (pendingEnabledModelsRequests h2) \<rparr>))))"
  "handleClientMessage ws (Create_chat requestId targetInstanceId prompt unifiedMode modelName maxMode) env h =
     (case findExtension targetInstanceId h of
        None \<Rightarrow>
          wsSend ws
            (ToClient (Create_chat_result requestId False None
               (Some ''Extension not connected for this instance'')))
            h
      | Some targetExtension \<Rightarrow>
          (let h1 = h\<lparr> pendingCreateChatRequests :=
                        AList.update requestId
                          \<lparr> pc_clientWs = ws, pc_instanceId = targetInstanceId,
                            pc_requestId = requestId, pc_timestamp = nowMs env \<rparr>
                          (pendingCreateChatRequests h) \<rparr>
           in case wsSend (x_ws targetExtension)
                     (ToExtension (Create_chat_request requestId targetInstanceId prompt unifiedMode
                        modelName maxMode)) h1 of
                (Inr _, h2) \<Rightarrow> (Inr (), h2)
              | (Inl err, h2) \<Rightarrow>
                  (Inr (),
                   trySend ws
                     (ToClient (Create_chat_result requestId False None
                        (Some (''Failed to forward to extension: '' @
                               (case err of SendFailed t \<Rightarrow> t | _ \<Rightarrow> '''')))))
                     (h2\<lparr> pendingCreateChatRequests :=
                            AList.delete requestId (pendingCreateChatRequests h2) \<rparr>))))"
  by (simp_all add: handleClientMessage_def)

lemma quiet_updateClient: "quiet k r h (updateClient ws f h)"
  by (simp add: updateClient_def quiet_fields)

lemma quiet_updateExtension: "quiet k r h (updateExtension ws f h)"
  by (simp add: updateExtension_def quiet_fields)

lemma quiet_subscribe_instances:
  "quiet k r h (snd (handleClientMessage ws Subscribe_instances env h))"
proof -
  let ?h1 = "updateClient ws (\<lambda>c. c\<lparr> c_subscribedInstances := True \<rparr>) h"
  let ?s1 = "sendEach ws (map (\<lambda>i. ToClient (Instance_update i)) (getAllInstances (registry ?h1))) ?h1"
  let ?s2 = "sendEach ws (map (\<lambda>s. ToClient (Session_update s)) (getAllSessions (registry (snd ?s1)))) (snd ?s1)"
  have q1: "quiet k r h (snd ?s1)"
    by (rule quiet_trans [OF quiet_updateClient]) (rule quiet_sendEach, cases k, auto)
  have q2: "quiet k r (snd ?s1) (snd ?s2)"
    by (rule quiet_sendEach, cases k, auto)
  show ?thesis
    using q1 quiet_trans [OF q1 q2]
    by (cases "fst ?s1") (simp_all add: handleClientMessage_simps Let_def split_beta)
qed

lemma quiet_subscribe_session:
  "quiet k r h (snd (handleClientMessage ws (Subscribe_session sid) env h))"
  unfolding handleClientMessage_simps Let_def
  by (rule quiet_trans [OF quiet_updateClient]) (rule quiet_sendEach, cases k, auto)

text \<open>A request of one kind, or a request of the same kind with another identifier.\<close>

lemma tracks_get_enabled_models:
  "k = CreateChat \<or> r' \<noteq> r \<Longrightarrow>
   tracks k r h (snd (handleClientMessage ws (Get_enabled_models r' target) env h))"
  unfolding handleClientMessage_requests
  by (cases k; cases "findExtension target h"; cases "readyState h ws";
      cases "readyState h (x_ws (the (findExtension target h)))")
     (auto simp: tracks_def results_def wsSend_def trySend_def
          map_of_pendingOf update_conv' delete_conv' Let_def split: option.splits)

lemma tracks_create_chat:
  "k = EnabledModels \<or> r' \<noteq> r \<Longrightarrow>
   tracks k r h (snd (handleClientMessage ws (Create_chat r' target prompt mode model maxMode) env h))"
  unfolding handleClientMessage_requests
  by (cases k; cases "findExtension target h"; cases "readyState h ws";
      cases "readyState h (x_ws (the (findExtension target h)))")
     (auto simp: tracks_def results_def wsSend_def trySend_def
          map_of_pendingOf update_conv' delete_conv' Let_def split: option.splits)

lemma tracks_handleClientMessage:
  assumes "\<not> isRequest k r (env, ClientData ws (Some m))"
  shows "tracks k r h (snd (handleClientMessage ws m env h))"
proof (cases m)
  case Subscribe_instances
  then show ?thesis by (simp add: quiet_tracks quiet_subscribe_instances)
next
  case (Subscribe_session sid)
  then show ?thesis by (simp add: quiet_tracks quiet_subscribe_session)
next
  case Unsubscribe_instances
  then show ?thesis by (simp add: handleClientMessage_simps quiet_tracks quiet_updateClient)
next
  case (Unsubscribe_session sid)
  then show ?thesis by (simp add: handleClientMessage_simps quiet_tracks quiet_updateClient)
next
  case Ping
  then show ?thesis by (cases k) (simp_all add: handleClientMessage_simps quiet_tracks quiet_wsSend)
next
  case (Send_message sid body)
  then show ?thesis by (cases k) (simp_all add: handleClientMessage_simps quiet_tracks quiet_wsSend)
next
  case (Get_enabled_models r' target)
  with assms have "k = CreateChat \<or> r' \<noteq> r" by (cases k) simp_all
  then show ?thesis unfolding Get_enabled_models by (rule tracks_get_enabled_models)
next
  case (Create_chat r' target prompt mode model maxMode)
  with assms have "k = EnabledModels \<or> r' \<noteq> r" by (cases k) simp_all
  then show ?thesis unfolding Create_chat by (rule tracks_create_chat)
qed

lemma snd_discard [simp]: "snd (discard x) = snd x"
  by (cases x) (simp add: discard_def split: sum.splits)

lemma quiet_register:
  "quiet k r h (snd (handleExtensionMessage ws (Register data) env h))"
proof -
  let ?w = "withRegistry (registerInstance (nowIso env) data) h"
  have q1: "quiet k r h (snd ?w)" by (rule quiet_withRegistry)
  have q2: "\<And>f. quiet k r h (updateExtension ws f (snd ?w))"
    by (rule quiet_trans [OF q1 quiet_updateExtension])
  show ?thesis
    using q1 q2 by (cases "fst ?w") (simp_all add: handleExtensionMessage_def split_beta)
qed

lemma tracks_reply:
  "tracks k r h (snd (handleExtensionMessage ws (Send_message_reply sid r' ok cid err) env h))"
  "tracks k r h (snd (handleExtensionMessage ws (Enabled_models_reply r' iid ok models err) env h))"
  "tracks k r h (snd (handleExtensionMessage ws (Create_chat_reply r' ok cid err) env h))"
proof -
  show "tracks k r h (snd (handleExtensionMessage ws (Send_message_reply sid r' ok cid err) env h))"
    by (cases k; cases "map_of (pendingMessageRequests h) r'")
       (auto simp: handleExtensionMessage_def intro!: quiet_tracks quiet_trans [OF quiet_fields(5) quiet_trySend])
  show "tracks k r h (snd (handleExtensionMessage ws (Enabled_models_reply r' iid ok models err) env h))"
    by (cases k; cases "map_of (pendingEnabledModelsRequests h) r'";
        cases "readyState h (pe_clientWs (the (map_of (pendingEnabledModelsRequests h) r')))")
       (auto simp: handleExtensionMessage_def tracks_def results_def wsSend_def trySend_def
          map_of_pendingOf delete_conv' split: option.splits)
  show "tracks k r h (snd (handleExtensionMessage ws (Create_chat_reply r' ok cid err) env h))"
    by (cases k; cases "map_of (pendingCreateChatRequests h) r'";
        cases "readyState h (pc_clientWs (the (map_of (pendingCreateChatRequests h) r')))")
       (auto simp: handleExtensionMessage_def tracks_def results_def wsSend_def trySend_def
          map_of_pendingOf delete_conv' split: option.splits)
qed

lemma tracks_handleExtensionMessage: "tracks k r h (snd (handleExtensionMessage ws m env h))"
proof (cases m)
  case (Register data)
  then show ?thesis by (simp add: quiet_tracks quiet_register)
next
  case Heartbeat
  then show ?thesis by (simp add: handleExtensionMessage_def quiet_tracks quiet_withRegistry)
next
  case (Session_start session)
  then show ?thesis by (simp add: handleExtensionMessage_def quiet_tracks quiet_withRegistry)
next
  case (Session_update_from sid updates)
  then show ?thesis by (simp add: handleExtensionMessage_def quiet_tracks quiet_withRegistry)
next
  case (Session_end sid)
  then show ?thesis by (simp add: handleExtensionMessage_def quiet_tracks quiet_withRegistry)
next
  case (Transcript_event_from event)
  then show ?thesis by (simp add: handleExtensionMessage_def quiet_tracks quiet_withRegistry)
next
  case (Send_message_reply sid r' ok cid err)
  then show ?thesis by (simp add: tracks_reply)
next
  case (Enabled_models_reply r' iid ok models err)
  then show ?thesis by (simp add: tracks_reply)
next
  case (Create_chat_reply r' ok cid err)
  then show ?thesis by (simp add: tracks_reply)
qed

subsection \<open>The sweep\<close>

lemma trySend_fields [simp]:
  "registry (trySend ws d h) = registry h"
  "clients (trySend ws d h) = clients h"
  "extensions (trySend ws d h) = extensions h"
  "pendingMessageRequests (trySend ws d h) = pendingMessageRequests h"
  "pendingEnabledModelsRequests (trySend ws d h) = pendingEnabledModelsRequests h"
  "pendingCreateChatRequests (trySend ws d h) = pendingCreateChatRequests h"
  "readyState (trySend ws d h) = readyState h"
  "closed (trySend ws d h) = closed h"
  "sent (trySend ws d h) = sent h @ (if readyState h ws = OPEN then [(ws, d)] else [])"
  by (simp_all add: trySend_def wsSend_def split: ReadyState.splits)

lemma sweepMessages_frame:
  "pendingEnabledModelsRequests (sweepMessages now todo h) = pendingEnabledModelsRequests h \<and>
   pendingCreateChatRequests (sweepMessages now todo h) = pendingCreateChatRequests h \<and>
   readyState (sweepMessages now todo h) = readyState h \<and>
   quiet k r h (sweepMessages now todo h)"
proof (induction todo arbitrary: h)
  case Nil
  show ?case by simp
next
  case (Cons x todo)
  obtain requestId request where x: "x = (requestId, request)" by (cases x)
  let ?h1 = "trySend (pm_clientWs request)
               (ToClient (Send_message_result (pm_sessionId request) False None (Some ''Request timed out'')))
               (h\<lparr> pendingMessageRequests := AList.delete requestId (pendingMessageRequests h) \<rparr>)"
  have q: "quiet k r h ?h1"
    by (rule quiet_trans [OF quiet_fields(5) quiet_trySend]) (cases k, simp_all)
  show ?case
  proof (cases "now - pm_timestamp request > 30000")
    case True
    with Cons [of ?h1] q x show ?thesis by (auto intro: quiet_trans)
  next
    case False
    with Cons [of h] x show ?thesis by simp
  qed
qed

lemma sweepEnabledModels_char:
  "pendingEnabledModelsRequests (sweepEnabledModels now todo h) =
     filter (\<lambda>x. fst x \<notin> fst ` set (filter (\<lambda>x. now - pe_timestamp (snd x) > 30000) todo))
       (pendingEnabledModelsRequests h) \<and>
   sent (sweepEnabledModels now todo h) =
     sent h @
     map (\<lambda>x. (pe_clientWs (snd x),
               ToClient (Enabled_models_result (fst x) (pe_instanceId (snd x)) False None
                  (Some ''Request timed out''))))
       (filter (\<lambda>x. now - pe_timestamp (snd x) > 30000 \<and> readyState h (pe_clientWs (snd x)) = OPEN) todo) \<and>
   pendingCreateChatRequests (sweepEnabledModels now todo h) = pendingCreateChatRequests h \<and>
   readyState (sweepEnabledModels now todo h) = readyState h"
proof (induction todo arbitrary: h)
  case Nil
  show ?case by simp
next
  case (Cons x todo)
  obtain requestId request where x: "x = (requestId, request)" by (cases x)
  let ?h1 = "trySend (pe_clientWs request)
               (ToClient (Enabled_models_result requestId (pe_instanceId request) False None
                  (Some ''Request timed out'')))
               (h\<lparr> pendingEnabledModelsRequests :=
                     AList.delete requestId (pendingEnabledModelsRequests h) \<rparr>)"
  show ?case
  proof (cases "now - pe_timestamp request > 30000")
    case True
    have del: "\<And>S. filter (\<lambda>x. fst x \<notin> S) (AList.delete requestId (pendingEnabledModelsRequests h)) =
                 filter (\<lambda>x. fst x \<notin> insert requestId S) (pendingEnabledModelsRequests h)"
      by (auto simp: AList.delete_eq split_beta intro: filter_cong)
    from True Cons [of ?h1] x show ?thesis by (simp add: del)
  next
    case False
    with Cons [of h] x show ?thesis by simp
  qed
qed

lemma sweepCreateChat_char:
  "pendingCreateChatRequests (sweepCreateChat now todo h) =
     filter (\<lambda>x. fst x \<notin> fst ` set (filter (\<lambda>x. now - pc_timestamp (snd x) > 30000) todo))
       (pendingCreateChatRequests h) \<and>
   sent (sweepCreateChat now todo h) =
     sent h @
     map (\<lambda>x. (pc_clientWs (snd x),
               ToClient (Create_chat_result (fst x) False None (Some ''Request timed out''))))
       (filter (\<lambda>x. now - pc_timestamp (snd x) > 30000 \<and> readyState h (pc_clientWs (snd x)) = OPEN) todo) \<and>
   pendingEnabledModelsRequests (sweepCreateChat now todo h) = pendingEnabledModelsRequests h \<and>
   readyState (sweepCreateChat now todo h) = readyState h"
proof (induction todo arbitrary: h)
  case Nil
  show ?case by simp
next
  case (Cons x todo)
  obtain requestId request where x: "x = (requestId, request)" by (cases x)
  let ?h1 = "trySend (pc_clientWs request)
               (ToClient (Create_chat_result requestId False None (Some ''Request timed out'')))
               (h\<lparr> pendingCreateChatRequests := AList.delete requestId (pendingCreateChatRequests h) \<rparr>)"
  show ?case
  proof (cases "now - pc_timestamp request > 30000")
    case True
    have del: "\<And>S. filter (\<lambda>x. fst x \<notin> S) (AList.delete requestId (pendingCreateChatRequests h)) =
                 filter (\<lambda>x. fst x \<notin> insert requestId S) (pendingCreateChatRequests h)"
      by (auto simp: AList.delete_eq split_beta intro: filter_cong)
    from True Cons [of ?h1] x show ?thesis by (simp add: del)
  next
    case False
    with Cons [of h] x show ?thesis by simp
  qed
qed

lemma map_of_filter_keys:
  "map_of (filter (\<lambda>x. fst x \<notin> S) P) r = (if r \<in> S then None else map_of P r)"
  by (induction P) auto

lemma filter_key:
  "distinct (map fst P) \<Longrightarrow>
   filter (\<lambda>x. fst x = r \<and> Q x) P =
     (case map_of P r of None \<Rightarrow> [] | Some p \<Rightarrow> if Q (r, p) then [(r, p)] else [])"
proof (induction P)
  case Nil
  show ?case by simp
next
  case (Cons x P)
  obtain k v where x: "x = (k, v)" by (cases x)
  show ?case
  proof (cases "k = r")
    case True
    with Cons.prems x have "map_of P r = None"
      by (simp add: map_of_eq_None_iff)
    with Cons True x show ?thesis by simp
  next
    case False
    with Cons x show ?thesis by simp
  qed
qed

lemma timed_key:
  "distinct (map fst P) \<Longrightarrow>
   r \<in> fst ` set (filter T P) \<longleftrightarrow> (case map_of P r of None \<Rightarrow> False | Some p \<Rightarrow> T (r, p))"
proof (induction P)
  case Nil
  show ?case by simp
next
  case (Cons x P)
  obtain k v where x: "x = (k, v)" by (cases x)
  show ?case
  proof (cases "k = r")
    case True
    with Cons.prems x have none: "map_of P r = None" and notin: "r \<notin> fst ` set P"
      by (simp_all add: map_of_eq_None_iff)
    from notin have "r \<notin> fst ` set (filter T P)" by auto
    with True x show ?thesis by auto
  next
    case False
    with Cons x show ?thesis by auto
  qed
qed

lemma tracks_sweepCreateChat:
  assumes "distinct (map fst (pendingCreateChatRequests h))"
  shows "tracks CreateChat r h (sweepCreateChat now (pendingCreateChatRequests h) h)"
proof -
  let ?P = "pendingCreateChatRequests h"
  let ?T = "\<lambda>x. now - pc_timestamp (snd x) > 30000"
  let ?g = "\<lambda>x. (pc_clientWs (snd x),
                   ToClient (Create_chat_result (fst x) False None (Some ''Request timed out'')))"
  let ?h' = "sweepCreateChat now ?P h"
  note c = sweepCreateChat_char [of now ?P h]
  have pend: "map_of (pendingOf CreateChat ?h') r =
                (case map_of ?P r of None \<Rightarrow> None
                 | Some p \<Rightarrow> if ?T (r, p) then None else Some (pc_clientWs p, pc_timestamp p))"
    using c timed_key [OF assms, of r ?T]
    by (simp add: map_of_pendingOf map_of_filter_keys split: option.splits)
  have "results CreateChat r ?h' =
          results CreateChat r h @
          map ?g (filter (\<lambda>x. fst x = r \<and> ?T x \<and> readyState h (pc_clientWs (snd x)) = OPEN) ?P)"
    using c by (simp add: results_def filter_map comp_def conj_commute conj_left_commute)
  also have "filter (\<lambda>x. fst x = r \<and> ?T x \<and> readyState h (pc_clientWs (snd x)) = OPEN) ?P =
               (case map_of ?P r of None \<Rightarrow> []
                | Some p \<Rightarrow> if ?T (r, p) \<and> readyState h (pc_clientWs p) = OPEN then [(r, p)] else [])"
    using filter_key [OF assms, of r "\<lambda>x. ?T x \<and> readyState h (pc_clientWs (snd x)) = OPEN"]
    by (simp split: option.splits)
  finally have res: "results CreateChat r ?h' =
          results CreateChat r h @
          map ?g (case map_of ?P r of None \<Rightarrow> []
                  | Some p \<Rightarrow> if ?T (r, p) \<and> readyState h (pc_clientWs p) = OPEN then [(r, p)] else [])" .
  show ?thesis
    unfolding tracks_def pend res
    by (cases "map_of ?P r") (auto simp: map_of_pendingOf)
qed

lemma tracks_sweepEnabledModels:
  assumes "distinct (map fst (pendingEnabledModelsRequests h))"
  shows "tracks EnabledModels r h (sweepEnabledModels now (pendingEnabledModelsRequests h) h)"
proof -
  let ?P = "pendingEnabledModelsRequests h"
  let ?T = "\<lambda>x. now - pe_timestamp (snd x) > 30000"
  let ?g = "\<lambda>x. (pe_clientWs (snd x),
                   ToClient (Enabled_models_result (fst x) (pe_instanceId (snd x)) False None
                      (Some ''Request timed out'')))"
  let ?h' = "sweepEnabledModels now ?P h"
  note c = sweepEnabledModels_char [of now ?P h]
  have pend: "map_of (pendingOf EnabledModels ?h') r =
                (case map_of ?P r of None \<Rightarrow> None
                 | Some p \<Rightarrow> if ?T (r, p) then None else Some (pe_clientWs p, pe_timestamp p))"
    using c timed_key [OF assms, of r ?T]
    by (simp add: map_of_pendingOf map_of_filter_keys split: option.splits)
  have "results EnabledModels r ?h' =
          results EnabledModels r h @
          map ?g (filter (\<lambda>x. fst x = r \<and> ?T x \<and> readyState h (pe_clientWs (snd x)) = OPEN) ?P)"
    using c by (simp add: results_def filter_map comp_def conj_commute conj_left_commute)
  also have "filter (\<lambda>x. fst x = r \<and> ?T x \<and> readyState h (pe_clientWs (snd x)) = OPEN) ?P =
               (case map_of ?P r of None \<Rightarrow> []
                | Some p \<Rightarrow> if ?T (r, p) \<and> readyState h (pe_clientWs p) = OPEN then [(r, p)] else [])"
    using filter_key [OF assms, of r "\<lambda>x. ?T x \<and> readyState h (pe_clientWs (snd x)) = OPEN"]
    by (simp split: option.splits)
  finally have res: "results EnabledModels r ?h' =
          results EnabledModels r h @
          map ?g (case map_of ?P r of None \<Rightarrow> []
                  | Some p \<Rightarrow> if ?T (r, p) \<and> readyState h (pe_clientWs p) = OPEN then [(r, p)] else [])" .
  show ?thesis
    unfolding tracks_def pend res
    by (cases "map_of ?P r") (auto simp: map_of_pendingOf)
qed

lemma quiet_sweepEnabledModels: "quiet CreateChat r h (sweepEnabledModels now todo h)"
  using sweepEnabledModels_char [of now todo h]
  by (auto simp: quiet_def pendingOf.simps)

lemma quiet_sweepCreateChat: "quiet EnabledModels r h (sweepCreateChat now todo h)"
  using sweepCreateChat_char [of now todo h]
  by (auto simp: quiet_def pendingOf.simps)

lemma tracks_sweep:
  assumes "distinct (map fst (pendingOf k h))"
  shows "tracks k r h (sweep env h)"
proof -
  let ?h1 = "sweepMessages (nowMs env) (pendingMessageRequests h) h"
  let ?h2 = "sweepEnabledModels (nowMs env) (pendingEnabledModelsRequests ?h1) ?h1"
  let ?h3 = "sweepCreateChat (nowMs env) (pendingCreateChatRequests ?h2) ?h2"
  note f1 = sweepMessages_frame [of "nowMs env" "pendingMessageRequests h" h k r]
  note c2 = sweepEnabledModels_char [of "nowMs env" "pendingEnabledModelsRequests ?h1" ?h1]
  have s: "sweep env h = ?h3" by (simp add: sweep_def Let_def)
  from f1 have t1: "tracks k r h ?h1" by (simp add: quiet_tracks)
  show ?thesis
  proof (cases k)
    case EnabledModels
    with assms f1 have "distinct (map fst (pendingEnabledModelsRequests ?h1))" by simp
    then have t2: "tracks EnabledModels r ?h1 ?h2" by (rule tracks_sweepEnabledModels)
    have t3: "tracks EnabledModels r ?h2 ?h3" by (rule quiet_tracks [OF quiet_sweepCreateChat])
    from t1 t2 t3 EnabledModels show ?thesis
      unfolding s by (blast intro: tracks_trans)
  next
    case CreateChat
    have t2: "tracks CreateChat r ?h1 ?h2" by (rule quiet_tracks [OF quiet_sweepEnabledModels])
    from assms f1 c2 CreateChat have "distinct (map fst (pendingCreateChatRequests ?h2))" by simp
    then have t3: "tracks CreateChat r ?h2 ?h3" by (rule tracks_sweepCreateChat)
    from t1 t2 t3 CreateChat show ?thesis
      unfolding s by (blast intro: tracks_trans)
  qed
qed

subsection \<open>The pending maps keep their keys distinct\<close>

lemma keeps_quiet:
  "quiet k r h h' \<Longrightarrow> distinct (map fst (pendingOf k h)) \<Longrightarrow> distinct (map fst (pendingOf k h'))"
  by (simp add: quiet_pending)

lemma keeps_requests:
  assumes "distinct (map fst (pendingOf k h))"
  shows "distinct (map fst (pendingOf k (snd (handleClientMessage ws (Get_enabled_models r' target) env h))))"
    and "distinct (map fst (pendingOf k
           (snd (handleClientMessage ws (Create_chat r' target prompt mode model maxMode) env h))))"
proof -
  show "distinct (map fst (pendingOf k (snd (handleClientMessage ws (Get_enabled_models r' target) env h))))"
    using assms unfolding handleClientMessage_requests
    by (cases k; cases "findExtension target h"; cases "readyState h ws";
        cases "readyState h (x_ws (the (findExtension target h)))")
       (auto simp: wsSend_def trySend_def distinct_update distinct_delete Let_def)
  show "distinct (map fst (pendingOf k
           (snd (handleClientMessage ws (Create_chat r' target prompt mode model maxMode) env h))))"
    using assms unfolding handleClientMessage_requests
    by (cases k; cases "findExtension target h"; cases "readyState h ws";
        cases "readyState h (x_ws (the (findExtension target h)))")
       (auto simp: wsSend_def trySend_def distinct_update distinct_delete Let_def)
qed

lemma keeps_handleClientMessage:
  assumes "distinct (map fst (pendingOf k h))"
  shows "distinct (map fst (pendingOf k (snd (handleClientMessage ws m env h))))"
proof (cases m)
  case Subscribe_instances
  with assms show ?thesis by (simp add: keeps_quiet [OF quiet_subscribe_instances])
next
  case (Subscribe_session sid)
  with assms show ?thesis by (simp add: keeps_quiet [OF quiet_subscribe_session])
next
  case Unsubscribe_instances
  with assms show ?thesis by (simp add: handleClientMessage_simps updateClient_def)
next
  case (Unsubscribe_session sid)
  with assms show ?thesis by (simp add: handleClientMessage_simps updateClient_def)
next
  case Ping
  with assms show ?thesis by (simp add: handleClientMessage_simps)
next
  case (Send_message sid body)
  with assms show ?thesis by (simp add: handleClientMessage_simps)
next
  case (Get_enabled_models r' target)
  with assms show ?thesis by (simp add: keeps_requests)
next
  case (Create_chat r' target prompt mode model maxMode)
  with assms show ?thesis by (simp add: keeps_requests)
qed

lemma keeps_handleExtensionMessage:
  assumes "distinct (map fst (pendingOf k h))"
  shows "distinct (map fst (pendingOf k (snd (handleExtensionMessage ws m env h))))"
proof (cases m)
  case (Register data)
  with assms show ?thesis by (simp add: keeps_quiet [OF quiet_register])
next
  case Heartbeat
  with assms show ?thesis
    by (simp add: handleExtensionMessage_def keeps_quiet [OF quiet_withRegistry])
next
  case (Session_start session)
  with assms show ?thesis
    by (simp add: handleExtensionMessage_def keeps_quiet [OF quiet_withRegistry])
next
  case (Session_update_from sid updates)
  with assms show ?thesis
    by (simp add: handleExtensionMessage_def keeps_quiet [OF quiet_withRegistry])
next
  case (Session_end sid)
  with assms show ?thesis
    by (simp add: handleExtensionMessage_def keeps_quiet [OF quiet_withRegistry])
next
  case (Transcript_event_from event)
  with assms show ?thesis
    by (simp add: handleExtensionMessage_def keeps_quiet [OF quiet_withRegistry])
next
  case (Send_message_reply sid r' ok cid err)
  with assms show ?thesis
    by (cases "map_of (pendingMessageRequests h) r'") (simp_all add: handleExtensionMessage_def trySend_def)
next
  case (Enabled_models_reply r' iid ok models err)
  with assms show ?thesis
    by (cases k; cases "map_of (pendingEnabledModelsRequests h) r'")
       (simp_all add: handleExtensionMessage_def trySend_def distinct_delete)
next
  case (Create_chat_reply r' ok cid err)
  with assms show ?thesis
    by (cases k; cases "map_of (pendingCreateChatRequests h) r'")
       (simp_all add: handleExtensionMessage_def trySend_def distinct_delete)
qed

lemma keeps_sweep:
  assumes "distinct (map fst (pendingOf k h))"
  shows "distinct (map fst (pendingOf k (sweep env h)))"
proof -
  let ?h1 = "sweepMessages (nowMs env) (pendingMessageRequests h) h"
  let ?h2 = "sweepEnabledModels (nowMs env) (pendingEnabledModelsRequests ?h1) ?h1"
  let ?h3 = "sweepCreateChat (nowMs env) (pendingCreateChatRequests ?h2) ?h2"
  note f1 = sweepMessages_frame [of "nowMs env" "pendingMessageRequests h" h k undefined]
  note c2 = sweepEnabledModels_char [of "nowMs env" "pendingEnabledModelsRequests ?h1" ?h1]
  note c3 = sweepCreateChat_char [of "nowMs env" "pendingCreateChatRequests ?h2" ?h2]
  have s: "sweep env h = ?h3" by (simp add: sweep_def Let_def)
  show ?thesis
    unfolding s using assms f1 c2 c3
    by (cases k) (simp_all add: distinct_map_filter)
qed

subsection \<open>One step, any run\<close>

lemma hubStep_tracks:
  assumes "distinct (map fst (pendingOf k h))" and "\<not> isRequest k r ev"
  shows "tracks k r h (hubStep h ev) \<and> distinct (map fst (pendingOf k (hubStep h ev)))"
proof -
  obtain env e where ev: "ev = (env, e)" by (cases ev)
  show ?thesis
  proof (cases e)
    case (ClientConnects ws authenticated)
    have "quiet k r h (snd (handleClientConnection ws authenticated h))"
    proof (cases authenticated)
      case True
      then show ?thesis by (simp add: handleClientConnection_def quiet_fields)
    next
      case False
      have q: "quiet k r h (snd (wsSend ws (ToClient (Error_message ''Invalid or missing token'')) h))"
        by (rule quiet_wsSend) (cases k, simp_all)
      from False q quiet_trans [OF q quiet_fields(3)] show ?thesis
        by (cases "fst (wsSend ws (ToClient (Error_message ''Invalid or missing token'')) h)")
           (simp_all add: handleClientConnection_def split_beta)
    qed
    with assms ev ClientConnects show ?thesis by (simp add: quiet_tracks keeps_quiet)
  next
    case (ClientData ws data)
    show ?thesis
    proof (cases data)
      case None
      have "quiet k r h (snd (wsSend ws (ToClient (Error_message ''Invalid message format'')) h))"
        by (rule quiet_wsSend) (cases k, simp_all)
      with assms ev ClientData None show ?thesis
        by (simp add: onClientData_def quiet_tracks keeps_quiet)
    next
      case (Some m)
      let ?h1 = "snd (handleClientMessage ws m env h)"
      from assms ev ClientData Some have nr: "\<not> isRequest k r (env, ClientData ws (Some m))" by simp
      have t1: "tracks k r h ?h1" using nr by (rule tracks_handleClientMessage)
      have d1: "distinct (map fst (pendingOf k ?h1))" using assms(1) by (rule keeps_handleClientMessage)
      have q2: "quiet k r ?h1 (snd (wsSend ws (ToClient (Error_message ''Invalid message format'')) ?h1))"
        by (rule quiet_wsSend) (cases k, simp_all)
      have "hubStep h ev = ?h1 \<or>
            hubStep h ev = snd (wsSend ws (ToClient (Error_message ''Invalid message format'')) ?h1)"
        using ev ClientData Some
        by (cases "fst (handleClientMessage ws m env h)") (simp_all add: onClientData_def split_beta)
      moreover have "tracks k r h (snd (wsSend ws (ToClient (Error_message ''Invalid message format'')) ?h1))"
        by (rule tracks_trans [OF t1 quiet_tracks [OF q2]])
      moreover have "distinct (map fst (pendingOf k
                        (snd (wsSend ws (ToClient (Error_message ''Invalid message format'')) ?h1))))"
        by (rule keeps_quiet [OF q2 d1])
      ultimately show ?thesis using t1 d1 by auto
    qed
  next
    case (ClientCloses ws)
    with assms ev show ?thesis by (simp add: onClientClose_def quiet_tracks quiet_fields)
  next
    case (ExtensionConnects ws)
    with assms ev show ?thesis by (simp add: handleExtensionConnection_def quiet_tracks quiet_fields)
  next
    case (ExtensionData ws data)
    with assms ev show ?thesis
      by (cases data)
         (simp_all add: onExtensionData_def tracks_handleExtensionMessage keeps_handleExtensionMessage)
  next
    case (ExtensionCloses ws)
    let ?w = "withRegistry (removeInstance (nowIso env) (the (connInstanceId ws h))) h"
    have q1: "quiet k r h (snd ?w)" by (rule quiet_withRegistry)
    have "quiet k r h (snd (onExtensionClose ws env h))"
      using q1 quiet_trans [OF q1 quiet_fields(2)]
      by (cases "fst ?w") (simp_all add: onExtensionClose_def split_beta quiet_fields)
    with assms ev ExtensionCloses show ?thesis by (simp add: quiet_tracks keeps_quiet)
  next
    case SweepTick
    with assms ev show ?thesis by (simp add: tracks_sweep keeps_sweep)
  next
    case (SocketChanges ws err)
    with assms ev show ?thesis by (simp add: quiet_tracks quiet_fields)
  qed
qed

lemma hubRun_tracks:
  assumes "distinct (map fst (pendingOf k h))" and "\<forall>ev \<in> set events. \<not> isRequest k r ev"
  shows "tracks k r h (hubRun events h)"
  using assms
proof (induction events arbitrary: h)
  case Nil
  show ?case by (simp add: hubRun_def)
next
  case (Cons ev events)
  from Cons.prems have s: "tracks k r h (hubStep h ev) \<and> distinct (map fst (pendingOf k (hubStep h ev)))"
    by (intro hubStep_tracks) simp_all
  with Cons.prems have "tracks k r (hubStep h ev) (hubRun events (hubStep h ev))"
    by (intro Cons.IH) simp_all
  with s show ?case by (auto simp: hubRun_def intro: tracks_trans)
qed

lemma sweep_createChat_exact:
  assumes "distinct (map fst (pendingCreateChatRequests h))"
  shows "map_of (pendingCreateChatRequests (sweep env h)) r =
           (case map_of (pendingCreateChatRequests h) r of
              None \<Rightarrow> None
            | Some p \<Rightarrow> if nowMs env - pc_timestamp p > 30000 then None else Some p)"
    and "results CreateChat r (sweep env h) =
           results CreateChat r h @
           (case map_of (pendingCreateChatRequests h) r of
              None \<Rightarrow> []
            | Some p \<Rightarrow>
                if nowMs env - pc_timestamp p > 30000 \<and> readyState h (pc_clientWs p) = OPEN
                then [(pc_clientWs p, ToClient (Create_chat_result r False None (Some ''Request timed out'')))]
                else [])"
proof -
  let ?h1 = "sweepMessages (nowMs env) (pendingMessageRequests h) h"
  let ?h2 = "sweepEnabledModels (nowMs env) (pendingEnabledModelsRequests ?h1) ?h1"
  let ?P = "pendingCreateChatRequests h"
  let ?T = "\<lambda>x. nowMs env - pc_timestamp (snd x) > 30000"
  note f1 = sweepMessages_frame [of "nowMs env" "pendingMessageRequests h" h CreateChat r]
  note c2 = sweepEnabledModels_char [of "nowMs env" "pendingEnabledModelsRequests ?h1" ?h1]
  note c3 = sweepCreateChat_char [of "nowMs env" "pendingCreateChatRequests ?h2" ?h2]
  have P2: "pendingCreateChatRequests ?h2 = ?P" and E2: "readyState ?h2 = readyState h"
    using f1 c2 by simp_all
  have "quiet CreateChat r ?h1 ?h2" by (rule quiet_sweepEnabledModels)
  moreover have "quiet CreateChat r h ?h1" using f1 by simp
  ultimately have R2: "results CreateChat r ?h2 = results CreateChat r h"
    by (simp add: quiet_results)
  have s: "sweep env h = sweepCreateChat (nowMs env) ?P ?h2"
    by (simp add: sweep_def Let_def P2)
  show "map_of (pendingCreateChatRequests (sweep env h)) r =
           (case map_of ?P r of
              None \<Rightarrow> None
            | Some p \<Rightarrow> if nowMs env - pc_timestamp p > 30000 then None else Some p)"
    using c3 timed_key [OF assms, of r ?T]
    by (simp add: s P2 map_of_filter_keys split: option.splits)
  have "results CreateChat r (sweep env h) =
          results CreateChat r h @
          map (\<lambda>x. (pc_clientWs (snd x),
                    ToClient (Create_chat_result (fst x) False None (Some ''Request timed out''))))
            (filter (\<lambda>x. fst x = r \<and> ?T x \<and> readyState h (pc_clientWs (snd x)) = OPEN) ?P)"
    using c3 R2
    by (simp add: s P2 E2 results_def filter_map comp_def conj_commute conj_left_commute)
  also have "filter (\<lambda>x. fst x = r \<and> ?T x \<and> readyState h (pc_clientWs (snd x)) = OPEN) ?P =
               (case map_of ?P r of None \<Rightarrow> []
                | Some p \<Rightarrow> if ?T (r, p) \<and> readyState h (pc_clientWs p) = OPEN then [(r, p)] else [])"
    using filter_key [OF assms, of r "\<lambda>x. ?T x \<and> readyState h (pc_clientWs (snd x)) = OPEN"]
    by (simp split: option.splits)
  finally show "results CreateChat r (sweep env h) =
           results CreateChat r h @
           (case map_of ?P r of
              None \<Rightarrow> []
            | Some p \<Rightarrow>
                if nowMs env - pc_timestamp p > 30000 \<and> readyState h (pc_clientWs p) = OPEN
                then [(pc_clientWs p, ToClient (Create_chat_result r False None (Some ''Request timed out'')))]
                else [])"
    by (simp split: option.splits)
qed

lemma create_chat_reply_exact:
  "onExtensionData x (Some (Create_chat_reply r ok cid err)) env h =
     (case map_of (pendingCreateChatRequests h) r of
        None \<Rightarrow> h
      | Some p \<Rightarrow>
          h\<lparr> pendingCreateChatRequests := AList.delete r (pendingCreateChatRequests h),
              sent := sent h @
                (if readyState h (pc_clientWs p) = OPEN
                 then [(pc_clientWs p, ToClient (Create_chat_result r ok cid err))] else []) \<rparr>)"
  by (cases "map_of (pendingCreateChatRequests h) r";
      cases "readyState h (pc_clientWs (the (map_of (pendingCreateChatRequests h) r)))")
     (simp_all add: onExtensionData_def handleExtensionMessage_def trySend_def wsSend_def)

subsection \<open>What each step does to the hub\<close>

lemma trySend_eq:
  "trySend ws d h = h\<lparr> sent := sent h @ (if readyState h ws = OPEN then [(ws, d)] else []) \<rparr>"
  by (cases "readyState h ws") (simp_all add: trySend_def wsSend_def)

lemma enabled_models_reply_exact:
  "onExtensionData x (Some (Enabled_models_reply r iid ok models err)) env h =
     (case map_of (pendingEnabledModelsRequests h) r of
        None \<Rightarrow> h
      | Some p \<Rightarrow>
          h\<lparr> pendingEnabledModelsRequests := AList.delete r (pendingEnabledModelsRequests h),
              sent := sent h @
                (if readyState h (pe_clientWs p) = OPEN
                 then [(pe_clientWs p, ToClient (Enabled_models_result r iid ok models err))] else []) \<rparr>)"
  by (cases "map_of (pendingEnabledModelsRequests h) r")
     (simp_all add: onExtensionData_def handleExtensionMessage_def trySend_eq)

lemma send_message_reply_exact:
  "onExtensionData x (Some (Send_message_reply sid r ok cid err)) env h =
     (case map_of (pendingMessageRequests h) r of
        None \<Rightarrow> h
      | Some p \<Rightarrow>
          h\<lparr> pendingMessageRequests := AList.delete r (pendingMessageRequests h),
              sent := sent h @
                (if readyState h (pm_clientWs p) = OPEN
                 then [(pm_clientWs p, ToClient (Send_message_result sid ok cid err))] else []) \<rparr>)"
  by (cases "map_of (pendingMessageRequests h) r")
     (simp_all add: onExtensionData_def handleExtensionMessage_def trySend_eq)

lemma filter_swept:
  assumes "distinct (map fst P)"
  shows "filter (\<lambda>x. fst x \<notin> fst ` set (filter T P)) P = filter (\<lambda>x. \<not> T x) P"
proof (rule filter_cong [OF refl])
  fix x
  assume x: "x \<in> set P"
  have "fst x \<in> fst ` set (filter T P) \<longleftrightarrow> T x"
  proof
    assume "fst x \<in> fst ` set (filter T P)"
    then obtain y where y: "y \<in> set P" "T y" "fst y = fst x" by auto
    with assms x have "y = x"
      by (metis eq_key_imp_eq_value prod.collapse)
    with y show "T x" by simp
  next
    assume "T x"
    with x show "fst x \<in> fst ` set (filter T P)" by auto
  qed
  then show "(fst x \<notin> fst ` set (filter T P)) = (\<not> T x)" by simp
qed

lemma delete_filter:
  "filter (\<lambda>x. fst x \<notin> S) (AList.delete k P) = filter (\<lambda>x. fst x \<notin> insert k S) P"
  by (auto simp: AList.delete_eq split_beta intro: filter_cong)

lemma sweepMessages_eq:
  "sweepMessages now todo h =
     h\<lparr> pendingMessageRequests :=
          filter (\<lambda>x. fst x \<notin> fst ` set (filter (\<lambda>x. now - pm_timestamp (snd x) > 30000) todo))
            (pendingMessageRequests h),
        sent := sent h @
          map (\<lambda>x. (pm_clientWs (snd x),
                    ToClient (Send_message_result (pm_sessionId (snd x)) False None
                       (Some ''Request timed out''))))
            (filter (\<lambda>x. now - pm_timestamp (snd x) > 30000 \<and> readyState h (pm_clientWs (snd x)) = OPEN)
               todo) \<rparr>"
proof (induction todo arbitrary: h)
  case Nil
  show ?case by simp
next
  case (Cons x todo)
  obtain requestId request where x: "x = (requestId, request)" by (cases x)
  show ?case
  proof (cases "now - pm_timestamp request > 30000")
    case True
    with x show ?thesis by (simp add: Cons.IH trySend_eq delete_filter)
  next
    case False
    with x show ?thesis by (simp add: Cons.IH)
  qed
qed

lemma sweepEnabledModels_eq:
  "sweepEnabledModels now todo h =
     h\<lparr> pendingEnabledModelsRequests :=
          filter (\<lambda>x. fst x \<notin> fst ` set (filter (\<lambda>x. now - pe_timestamp (snd x) > 30000) todo))
            (pendingEnabledModelsRequests h),
        sent := sent h @
          map (\<lambda>x. (pe_clientWs (snd x),
                    ToClient (Enabled_models_result (fst x) (pe_instanceId (snd x)) False None
                       (Some ''Request timed out''))))
            (filter (\<lambda>x. now - pe_timestamp (snd x) > 30000 \<and> readyState h (pe_clientWs (snd x)) = OPEN)
               todo) \<rparr>"
proof (induction todo arbitrary: h)
  case Nil
  show ?case by simp
next
  case (Cons x todo)
  obtain requestId request where x: "x = (requestId, request)" by (cases x)
  show ?case
  proof (cases "now - pe_timestamp request > 30000")
    case True
    with x show ?thesis by (simp add: Cons.IH trySend_eq delete_filter)
  next
    case False
    with x show ?thesis by (simp add: Cons.IH)
  qed
qed

lemma sweepCreateChat_eq:
  "sweepCreateChat now todo h =
     h\<lparr> pendingCreateChatRequests :=
          filter (\<lambda>x. fst x \<notin> fst ` set (filter (\<lambda>x. now - pc_timestamp (snd x) > 30000) todo))
            (pendingCreateChatRequests h),
        sent := sent h @
          map (\<lambda>x. (pc_clientWs (snd x),
                    ToClient (Create_chat_result (fst x) False None (Some ''Request timed out''))))
            (filter (\<lambda>x. now - pc_timestamp (snd x) > 30000 \<and> readyState h (pc_clientWs (snd x)) = OPEN)
               todo) \<rparr>"
proof (induction todo arbitrary: h)
  case Nil
  show ?case by simp
next
  case (Cons x todo)
  obtain requestId request where x: "x = (requestId, request)" by (cases x)
  show ?case
  proof (cases "now - pc_timestamp request > 30000")
    case True
    with x show ?thesis by (simp add: Cons.IH trySend_eq delete_filter)
  next
    case False
    with x show ?thesis by (simp add: Cons.IH)
  qed
qed

lemma sweepMessages_all:
  assumes "todo = pendingMessageRequests h" and "distinct (map fst todo)"
  shows "sweepMessages now todo h =
     h\<lparr> pendingMessageRequests := filter (\<lambda>x. \<not> now - pm_timestamp (snd x) > 30000) todo,
        sent := sent h @
          map (\<lambda>x. (pm_clientWs (snd x),
                    ToClient (Send_message_result (pm_sessionId (snd x)) False None
                       (Some ''Request timed out''))))
            (filter (\<lambda>x. now - pm_timestamp (snd x) > 30000 \<and> readyState h (pm_clientWs (snd x)) = OPEN)
               todo) \<rparr>"
  unfolding sweepMessages_eq assms(1) [symmetric] filter_swept [OF assms(2)] ..

lemma sweepEnabledModels_all:
  assumes "todo = pendingEnabledModelsRequests h" and "distinct (map fst todo)"
  shows "sweepEnabledModels now todo h =
     h\<lparr> pendingEnabledModelsRequests := filter (\<lambda>x. \<not> now - pe_timestamp (snd x) > 30000) todo,
        sent := sent h @
          map (\<lambda>x. (pe_clientWs (snd x),
                    ToClient (Enabled_models_result (fst x) (pe_instanceId (snd x)) False None
                       (Some ''Request timed out''))))
            (filter (\<lambda>x. now - pe_timestamp (snd x) > 30000 \<and> readyState h (pe_clientWs (snd x)) = OPEN)
               todo) \<rparr>"
  unfolding sweepEnabledModels_eq assms(1) [symmetric] filter_swept [OF assms(2)] ..

lemma sweepCreateChat_all:
  assumes "todo = pendingCreateChatRequests h" and "distinct (map fst todo)"
  shows "sweepCreateChat now todo h =
     h\<lparr> pendingCreateChatRequests := filter (\<lambda>x. \<not> now - pc_timestamp (snd x) > 30000) todo,
        sent := sent h @
          map (\<lambda>x. (pc_clientWs (snd x),
                    ToClient (Create_chat_result (fst x) False None (Some ''Request timed out''))))
            (filter (\<lambda>x. now - pc_timestamp (snd x) > 30000 \<and> readyState h (pc_clientWs (snd x)) = OPEN)
               todo) \<rparr>"
  unfolding sweepCreateChat_eq assms(1) [symmetric] filter_swept [OF assms(2)] ..

lemma sweep_exact:
  assumes "distinct (map fst (pendingMessageRequests h))"
    and "distinct (map fst (pendingEnabledModelsRequests h))"
    and "distinct (map fst (pendingCreateChatRequests h))"
  shows "sweep env h =
     h\<lparr> pendingMessageRequests :=
          filter (\<lambda>x. \<not> nowMs env - pm_timestamp (snd x) > 30000) (pendingMessageRequests h),
        pendingEnabledModelsRequests :=
          filter (\<lambda>x. \<not> nowMs env - pe_timestamp (snd x) > 30000) (pendingEnabledModelsRequests h),
        pendingCreateChatRequests :=
          filter (\<lambda>x. \<not> nowMs env - pc_timestamp (snd x) > 30000) (pendingCreateChatRequests h),
        sent := sent h @
          map (\<lambda>x. (pm_clientWs (snd x),
                    ToClient (Send_message_result (pm_sessionId (snd x)) False None
                       (Some ''Request timed out''))))
            (filter (\<lambda>x. nowMs env - pm_timestamp (snd x) > 30000 \<and>
                          readyState h (pm_clientWs (snd x)) = OPEN) (pendingMessageRequests h)) @
          map (\<lambda>x. (pe_clientWs (snd x),
                    ToClient (Enabled_models_result (fst x) (pe_instanceId (snd x)) False None
                       (Some ''Request timed out''))))
            (filter (\<lambda>x. nowMs env - pe_timestamp (snd x) > 30000 \<and>
                          readyState h (pe_clientWs (snd x)) = OPEN) (pendingEnabledModelsRequests h)) @
          map (\<lambda>x. (pc_clientWs (snd x),
                    ToClient (Create_chat_result (fst x) False None (Some ''Request timed out''))))
            (filter (\<lambda>x. nowMs env - pc_timestamp (snd x) > 30000 \<and>
                          readyState h (pc_clientWs (snd x)) = OPEN) (pendingCreateChatRequests h)) \<rparr>"
  using assms
  by (simp add: sweep_def Let_def sweepMessages_all sweepEnabledModels_all sweepCreateChat_all)

lemma create_chat_request_exact:
  "hubStep h (env, ClientData ws (Some (Create_chat r target prompt mode model maxMode))) =
     (case findExtension target h of
        None \<Rightarrow>
          h\<lparr> sent := sent h @
                (if readyState h ws = OPEN
                 then [(ws, ToClient (Create_chat_result r False None
                               (Some ''Extension not connected for this instance'')))]
                 else []) \<rparr>
      | Some ext \<Rightarrow>
          (if readyState h (x_ws ext) = CONNECTING then
             h\<lparr> pendingCreateChatRequests := AList.delete r (pendingCreateChatRequests h),
                 sent := sent h @
                   (if readyState h ws = OPEN
                    then [(ws, ToClient (Create_chat_result r False None
                                  (Some (''Failed to forward to extension: '' @
                                         ''Error: WebSocket is not open: readyState 0 (CONNECTING)''))))]
                    else []) \<rparr>
           else
             h\<lparr> pendingCreateChatRequests :=
                   AList.update r
                     \<lparr> pc_clientWs = ws, pc_instanceId = target, pc_requestId = r,
                       pc_timestamp = nowMs env \<rparr>
                     (pendingCreateChatRequests h),
                 sent := sent h @
                   (if readyState h (x_ws ext) = OPEN
                    then [(x_ws ext, ToExtension (Create_chat_request r target prompt mode model maxMode))]
                    else []) \<rparr>))"
proof (cases "findExtension target h")
  case None
  then show ?thesis
    by (cases "readyState h ws")
       (simp_all add: onClientData_def handleClientMessage_requests wsSend_def)
next
  case (Some ext)
  then show ?thesis
    by (cases "readyState h (x_ws ext)"; cases "readyState h ws")
       (simp_all add: onClientData_def handleClientMessage_requests wsSend_def trySend_def Let_def
          delete_update_same)
qed

lemma get_enabled_models_request_exact:
  "hubStep h (env, ClientData ws (Some (Get_enabled_models r target))) =
     (case findExtension target h of
        None \<Rightarrow>
          h\<lparr> sent := sent h @
                (if readyState h ws = OPEN
                 then [(ws, ToClient (Enabled_models_result r target False None
                               (Some ''Extension not connected for this instance'')))]
                 else []) \<rparr>
      | Some ext \<Rightarrow>
          (if readyState h (x_ws ext) = CONNECTING then
             h\<lparr> pendingEnabledModelsRequests := AList.delete r (pendingEnabledModelsRequests h),
                 sent := sent h @
                   (if readyState h ws = OPEN
                    then [(ws, ToClient (Enabled_models_result r target False None
                                  (Some (''Failed to forward to extension: '' @
                                         ''Error: WebSocket is not open: readyState 0 (CONNECTING)''))))]
                    else []) \<rparr>
           else
             h\<lparr> pendingEnabledModelsRequests :=
                   AList.update r
                     \<lparr> pe_clientWs = ws, pe_instanceId = target, pe_requestId = r,
                       pe_timestamp = nowMs env \<rparr>
                     (pendingEnabledModelsRequests h),
                 sent := sent h @
                   (if readyState h (x_ws ext) = OPEN
                    then [(x_ws ext, ToExtension (Get_enabled_models_request r target))]
                    else []) \<rparr>))"
proof (cases "findExtension target h")
  case None
  then show ?thesis
    by (cases "readyState h ws")
       (simp_all add: onClientData_def handleClientMessage_requests wsSend_def)
next
  case (Some ext)
  then show ?thesis
    by (cases "readyState h (x_ws ext)"; cases "readyState h ws")
       (simp_all add: onClientData_def handleClientMessage_requests wsSend_def trySend_def Let_def
          delete_update_same)
qed

lemma request_step:
  assumes "distinct (map fst (pendingOf k h))"
    and "map_of (pendingOf k h) r = None"
    and "isRequest k r (env, ClientData ws (Some m))"
  shows "distinct (map fst (pendingOf k (hubStep h (env, ClientData ws (Some m)))))"
    and "(map_of (pendingOf k (hubStep h (env, ClientData ws (Some m)))) r = Some (ws, nowMs env) \<and>
          results k r (hubStep h (env, ClientData ws (Some m))) = results k r h) \<or>
         (map_of (pendingOf k (hubStep h (env, ClientData ws (Some m)))) r = None \<and>
          (\<exists>extra. results k r (hubStep h (env, ClientData ws (Some m))) = results k r h @ extra \<and>
                   length extra \<le> 1 \<and> (\<forall>x \<in> set extra. fst x = ws)))"
proof -
  have s: "distinct (map fst (pendingOf k (snd (handleClientMessage ws m env h))))"
    by (rule keeps_handleClientMessage [OF assms(1)])
  have e: "pendingOf k (hubStep h (env, ClientData ws (Some m))) =
           pendingOf k (snd (handleClientMessage ws m env h))"
    by (cases "handleClientMessage ws m env h"; cases "fst (handleClientMessage ws m env h)")
       (simp_all add: onClientData_def)
  from s e show "distinct (map fst (pendingOf k (hubStep h (env, ClientData ws (Some m)))))"
    by simp
  show "(map_of (pendingOf k (hubStep h (env, ClientData ws (Some m)))) r = Some (ws, nowMs env) \<and>
          results k r (hubStep h (env, ClientData ws (Some m))) = results k r h) \<or>
         (map_of (pendingOf k (hubStep h (env, ClientData ws (Some m)))) r = None \<and>
          (\<exists>extra. results k r (hubStep h (env, ClientData ws (Some m))) = results k r h @ extra \<and>
                   length extra \<le> 1 \<and> (\<forall>x \<in> set extra. fst x = ws)))"
  proof (cases k)
    case EnabledModels
    with assms(3) obtain target where m: "m = Get_enabled_models r target"
      by (cases m) simp_all
    from assms(2) EnabledModels
    have n: "map_of (pendingEnabledModelsRequests h) r = None"
      by (simp add: map_of_pendingOf)
    show ?thesis
      unfolding m get_enabled_models_request_exact EnabledModels
      using n
      by (cases "findExtension target h")
         (simp_all add: map_of_pendingOf results_def update_conv' delete_conv')
  next
    case CreateChat
    with assms(3) obtain target prompt mode model maxMode
      where m: "m = Create_chat r target prompt mode model maxMode"
      by (cases m) simp_all
    from assms(2) CreateChat
    have n: "map_of (pendingCreateChatRequests h) r = None"
      by (simp add: map_of_pendingOf)
    show ?thesis
      unfolding m create_chat_request_exact CreateChat
      using n
      by (cases "findExtension target h")
         (simp_all add: map_of_pendingOf results_def update_conv' delete_conv')
  qed
qed

lemma request_then_run:
  assumes "distinct (map fst (pendingOf k h))"
    and "map_of (pendingOf k h) r = None"
    and "isRequest k r (env, ClientData ws (Some m))"
    and "\<forall>ev \<in> set events. \<not> isRequest k r ev"
  shows "\<exists>extra. results k r (hubRun ((env, ClientData ws (Some m)) # events) h) = results k r h @ extra \<and>
           length extra \<le> 1 \<and> (\<forall>x \<in> set extra. fst x = ws)"
proof -
  let ?h1 = "hubStep h (env, ClientData ws (Some m))"
  note s = request_step [OF assms(1-3)]
  note t = hubRun_tracks [OF s(1) assms(4)]
  have r: "hubRun ((env, ClientData ws (Some m)) # events) h = hubRun events ?h1"
    by (simp add: hubRun_def)
  from s(2) show ?thesis
  proof
    assume a: "map_of (pendingOf k ?h1) r = Some (ws, nowMs env) \<and> results k r ?h1 = results k r h"
    with t consider
        "results k r (hubRun events ?h1) = results k r h"
      | w where "results k r (hubRun events ?h1) = results k r h @ [(ws, w)]"
      by (auto simp: tracks_def)
    then show ?thesis
    proof cases
      case 1
      then show ?thesis by (simp add: r)
    next
      case 2
      then show ?thesis by (simp add: r)
    qed
  next
    assume a: "map_of (pendingOf k ?h1) r = None \<and>
          (\<exists>extra. results k r ?h1 = results k r h @ extra \<and>
                   length extra \<le> 1 \<and> (\<forall>x \<in> set extra. fst x = ws))"
    with t have "results k r (hubRun events ?h1) = results k r ?h1"
      by (simp add: tracks_def)
    with a show ?thesis by (simp add: r)
  qed
qed

text \<open>
  C6. A request id tracked as a pending request of either kind gets at most one result
  message, and that one goes to the consumer that issued the request. Over any run of the hub
  in which the id is not reused for a new request of that kind, the results for the id grow
  by at most one message when the id is pending at the start and by none when it is not, and
  once a result has been sent the record is gone; a run that starts with the request itself,
  for an id that is not pending, sends at most one result for it, to the requesting socket.
  Step by step, for every kind of pending record: the producer's reply for a pending id
  deletes the record and forwards the reply to the recorded socket, and a reply for an id with
  no pending record leaves the hub exactly as it was; the sweep deletes every record older
  than 30000 ms, sends one synthetic failure for each of them, and keeps every younger record;
  a request with no producer for the instance is answered at once and leaves no record, a
  request whose forwarding throws is answered at once and its record deleted, and any other
  request leaves a record and is forwarded. (A socket that is closing or closed takes a
  message without delivering it: then no result arrives, never two. Nothing in the hub adds a
  record to \<^verbatim>\<open>pendingMessageRequests\<close>.)
\<close>

theorem at_most_one_result_per_request:
  assumes "distinct (map fst (pendingOf k h))"
    and "\<forall>ev \<in> set events. \<not> isRequest k r ev"
  shows "(\<exists>extra. results k r (hubRun events h) = results k r h @ extra \<and>
            length extra \<le> (case map_of (pendingOf k h) r of None \<Rightarrow> 0 | Some p \<Rightarrow> 1) \<and>
            (\<forall>x \<in> set extra. map_option fst (map_of (pendingOf k h) r) = Some (fst x)) \<and>
            (extra \<noteq> [] \<longrightarrow> map_of (pendingOf k (hubRun events h)) r = None)) \<and>
         (map_of (pendingOf k h) r = None \<longrightarrow> map_of (pendingOf k (hubRun events h)) r = None) \<and>
         (\<forall>p. map_of (pendingCreateChatRequests h) r = Some p \<longrightarrow>
            map_of (pendingCreateChatRequests
                      (hubStep h (env, ExtensionData x (Some (Create_chat_reply r ok cid err))))) r = None \<and>
            sent (hubStep h (env, ExtensionData x (Some (Create_chat_reply r ok cid err)))) =
              sent h @
              (if readyState h (pc_clientWs p) = OPEN
               then [(pc_clientWs p, ToClient (Create_chat_result r ok cid err))] else [])) \<and>
         (map_of (pendingCreateChatRequests h) r = None \<longrightarrow>
            hubStep h (env, ExtensionData x (Some (Create_chat_reply r ok cid err))) = h) \<and>
         (\<forall>p. k = CreateChat \<and> map_of (pendingCreateChatRequests h) r = Some p \<longrightarrow>
            map_of (pendingCreateChatRequests (hubStep h (env, SweepTick))) r =
              (if nowMs env - pc_timestamp p > 30000 then None else Some p) \<and>
            results CreateChat r (hubStep h (env, SweepTick)) =
              results CreateChat r h @
              (if nowMs env - pc_timestamp p > 30000 \<and> readyState h (pc_clientWs p) = OPEN
               then [(pc_clientWs p, ToClient (Create_chat_result r False None (Some ''Request timed out'')))]
               else [])) \<and>
         (hubStep h (env, ExtensionData x (Some (Create_chat_reply r ok cid err))) =
            (case map_of (pendingCreateChatRequests h) r of
               None \<Rightarrow> h
             | Some p \<Rightarrow>
                 h\<lparr> pendingCreateChatRequests := AList.delete r (pendingCreateChatRequests h),
                     sent := sent h @
                       (if readyState h (pc_clientWs p) = OPEN
                        then [(pc_clientWs p, ToClient (Create_chat_result r ok cid err))] else []) \<rparr>)) \<and>
         (hubStep h (env, ExtensionData x (Some (Enabled_models_reply r target ok models err))) =
            (case map_of (pendingEnabledModelsRequests h) r of
               None \<Rightarrow> h
             | Some p \<Rightarrow>
                 h\<lparr> pendingEnabledModelsRequests := AList.delete r (pendingEnabledModelsRequests h),
                     sent := sent h @
                       (if readyState h (pe_clientWs p) = OPEN
                        then [(pe_clientWs p, ToClient (Enabled_models_result r target ok models err))]
                        else []) \<rparr>)) \<and>
         (hubStep h (env, ExtensionData x (Some (Send_message_reply sid r ok cid err))) =
            (case map_of (pendingMessageRequests h) r of
               None \<Rightarrow> h
             | Some p \<Rightarrow>
                 h\<lparr> pendingMessageRequests := AList.delete r (pendingMessageRequests h),
                     sent := sent h @
                       (if readyState h (pm_clientWs p) = OPEN
                        then [(pm_clientWs p, ToClient (Send_message_result sid ok cid err))] else []) \<rparr>)) \<and>
         (distinct (map fst (pendingMessageRequests h)) \<and>
          distinct (map fst (pendingEnabledModelsRequests h)) \<and>
          distinct (map fst (pendingCreateChatRequests h)) \<longrightarrow>
            hubStep h (env, SweepTick) =
              h\<lparr> pendingMessageRequests :=
                    filter (\<lambda>x. \<not> nowMs env - pm_timestamp (snd x) > 30000) (pendingMessageRequests h),
                  pendingEnabledModelsRequests :=
                    filter (\<lambda>x. \<not> nowMs env - pe_timestamp (snd x) > 30000) (pendingEnabledModelsRequests h),
                  pendingCreateChatRequests :=
                    filter (\<lambda>x. \<not> nowMs env - pc_timestamp (snd x) > 30000) (pendingCreateChatRequests h),
                  sent := sent h @
                    map (\<lambda>x. (pm_clientWs (snd x),
                              ToClient (Send_message_result (pm_sessionId (snd x)) False None
                                 (Some ''Request timed out''))))
                      (filter (\<lambda>x. nowMs env - pm_timestamp (snd x) > 30000 \<and>
                                    readyState h (pm_clientWs (snd x)) = OPEN) (pendingMessageRequests h)) @
                    map (\<lambda>x. (pe_clientWs (snd x),
                              ToClient (Enabled_models_result (fst x) (pe_instanceId (snd x)) False None
                                 (Some ''Request timed out''))))
                      (filter (\<lambda>x. nowMs env - pe_timestamp (snd x) > 30000 \<and>
                                    readyState h (pe_clientWs (snd x)) = OPEN)
                         (pendingEnabledModelsRequests h)) @
                    map (\<lambda>x. (pc_clientWs (snd x),
                              ToClient (Create_chat_result (fst x) False None (Some ''Request timed out''))))
                      (filter (\<lambda>x. nowMs env - pc_timestamp (snd x) > 30000 \<and>
                                    readyState h (pc_clientWs (snd x)) = OPEN)
                         (pendingCreateChatRequests h)) \<rparr>) \<and>
         (hubStep h (env, ClientData ws (Some (Create_chat r target prompt mode model maxMode))) =
            (case findExtension target h of
               None \<Rightarrow>
                 h\<lparr> sent := sent h @
                       (if readyState h ws = OPEN
                        then [(ws, ToClient (Create_chat_result r False None
                                      (Some ''Extension not connected for this instance'')))]
                        else []) \<rparr>
             | Some ext \<Rightarrow>
                 (if readyState h (x_ws ext) = CONNECTING then
                    h\<lparr> pendingCreateChatRequests := AList.delete r (pendingCreateChatRequests h),
                        sent := sent h @
                          (if readyState h ws = OPEN
                           then [(ws, ToClient (Create_chat_result r False None
                                         (Some (''Failed to forward to extension: '' @
                                                ''Error: WebSocket is not open: readyState 0 (CONNECTING)''))))]
                           else []) \<rparr>
                  else
                    h\<lparr> pendingCreateChatRequests :=
                          AList.update r
                            \<lparr> pc_clientWs = ws, pc_instanceId = target, pc_requestId = r,
                              pc_timestamp = nowMs env \<rparr>
                            (pendingCreateChatRequests h),
                        sent := sent h @
                          (if readyState h (x_ws ext) = OPEN
                           then [(x_ws ext, ToExtension (Create_chat_request r target prompt mode model maxMode))]
                           else []) \<rparr>))) \<and>
         (hubStep h (env, ClientData ws (Some (Get_enabled_models r target))) =
            (case findExtension target h of
               None \<Rightarrow>
                 h\<lparr> sent := sent h @
                       (if readyState h ws = OPEN
                        then [(ws, ToClient (Enabled_models_result r target False None
                                      (Some ''Extension not connected for this instance'')))]
                        else []) \<rparr>
             | Some ext \<Rightarrow>
                 (if readyState h (x_ws ext) = CONNECTING then
                    h\<lparr> pendingEnabledModelsRequests := AList.delete r (pendingEnabledModelsRequests h),
                        sent := sent h @
                          (if readyState h ws = OPEN
                           then [(ws, ToClient (Enabled_models_result r target False None
                                         (Some (''Failed to forward to extension: '' @
                                                ''Error: WebSocket is not open: readyState 0 (CONNECTING)''))))]
                           else []) \<rparr>
                  else
                    h\<lparr> pendingEnabledModelsRequests :=
                          AList.update r
                            \<lparr> pe_clientWs = ws, pe_instanceId = target, pe_requestId = r,
                              pe_timestamp = nowMs env \<rparr>
                            (pendingEnabledModelsRequests h),
                        sent := sent h @
                          (if readyState h (x_ws ext) = OPEN
                           then [(x_ws ext, ToExtension (Get_enabled_models_request r target))]
                           else []) \<rparr>))) \<and>
         (map_of (pendingOf k h) r = None \<and> isRequest k r (env, ClientData ws (Some m)) \<longrightarrow>
            (\<exists>extra. results k r (hubRun ((env, ClientData ws (Some m)) # events) h) =
                       results k r h @ extra \<and>
                     length extra \<le> 1 \<and> (\<forall>x \<in> set extra. fst x = ws)))"
proof (intro conjI)
  note t = hubRun_tracks [OF assms]
  show "\<exists>extra. results k r (hubRun events h) = results k r h @ extra \<and>
            length extra \<le> (case map_of (pendingOf k h) r of None \<Rightarrow> 0 | Some p \<Rightarrow> 1) \<and>
            (\<forall>x \<in> set extra. map_option fst (map_of (pendingOf k h) r) = Some (fst x)) \<and>
            (extra \<noteq> [] \<longrightarrow> map_of (pendingOf k (hubRun events h)) r = None)"
  proof (cases "map_of (pendingOf k h) r")
    case None
    with t show ?thesis by (simp add: tracks_def)
  next
    case (Some p)
    with t consider
        "results k r (hubRun events h) = results k r h"
      | w where "map_of (pendingOf k (hubRun events h)) r = None"
          "results k r (hubRun events h) = results k r h @ [(fst p, w)]"
      by (auto simp: tracks_def)
    then show ?thesis
    proof cases
      case 1
      then show ?thesis by simp
    next
      case 2
      with Some show ?thesis by simp
    qed
  qed
  show "map_of (pendingOf k h) r = None \<longrightarrow> map_of (pendingOf k (hubRun events h)) r = None"
    using t by (auto simp: tracks_def)
  show "\<forall>p. map_of (pendingCreateChatRequests h) r = Some p \<longrightarrow>
            map_of (pendingCreateChatRequests
                      (hubStep h (env, ExtensionData x (Some (Create_chat_reply r ok cid err))))) r = None \<and>
            sent (hubStep h (env, ExtensionData x (Some (Create_chat_reply r ok cid err)))) =
              sent h @
              (if readyState h (pc_clientWs p) = OPEN
               then [(pc_clientWs p, ToClient (Create_chat_result r ok cid err))] else [])"
    by (simp add: create_chat_reply_exact delete_conv')
  show "map_of (pendingCreateChatRequests h) r = None \<longrightarrow>
            hubStep h (env, ExtensionData x (Some (Create_chat_reply r ok cid err))) = h"
    by (simp add: create_chat_reply_exact)
  show "\<forall>p. k = CreateChat \<and> map_of (pendingCreateChatRequests h) r = Some p \<longrightarrow>
            map_of (pendingCreateChatRequests (hubStep h (env, SweepTick))) r =
              (if nowMs env - pc_timestamp p > 30000 then None else Some p) \<and>
            results CreateChat r (hubStep h (env, SweepTick)) =
              results CreateChat r h @
              (if nowMs env - pc_timestamp p > 30000 \<and> readyState h (pc_clientWs p) = OPEN
               then [(pc_clientWs p, ToClient (Create_chat_result r False None (Some ''Request timed out'')))]
               else [])"
  proof (intro allI impI)
    fix p
    assume a: "k = CreateChat \<and> map_of (pendingCreateChatRequests h) r = Some p"
    with assms(1) have d: "distinct (map fst (pendingCreateChatRequests h))" by simp
    from a show "map_of (pendingCreateChatRequests (hubStep h (env, SweepTick))) r =
              (if nowMs env - pc_timestamp p > 30000 then None else Some p) \<and>
            results CreateChat r (hubStep h (env, SweepTick)) =
              results CreateChat r h @
              (if nowMs env - pc_timestamp p > 30000 \<and> readyState h (pc_clientWs p) = OPEN
               then [(pc_clientWs p, ToClient (Create_chat_result r False None (Some ''Request timed out'')))]
               else [])"
      by (simp add: sweep_createChat_exact [OF d])
  qed
  show "hubStep h (env, ExtensionData x (Some (Create_chat_reply r ok cid err))) =
            (case map_of (pendingCreateChatRequests h) r of
               None \<Rightarrow> h
             | Some p \<Rightarrow>
                 h\<lparr> pendingCreateChatRequests := AList.delete r (pendingCreateChatRequests h),
                     sent := sent h @
                       (if readyState h (pc_clientWs p) = OPEN
                        then [(pc_clientWs p, ToClient (Create_chat_result r ok cid err))] else []) \<rparr>)"
    by (simp add: create_chat_reply_exact)
  show "hubStep h (env, ExtensionData x (Some (Enabled_models_reply r target ok models err))) =
            (case map_of (pendingEnabledModelsRequests h) r of
               None \<Rightarrow> h
             | Some p \<Rightarrow>
                 h\<lparr> pendingEnabledModelsRequests := AList.delete r (pendingEnabledModelsRequests h),
                     sent := sent h @
                       (if readyState h (pe_clientWs p) = OPEN
                        then [(pe_clientWs p, ToClient (Enabled_models_result r target ok models err))]
                        else []) \<rparr>)"
    by (simp add: enabled_models_reply_exact)
  show "hubStep h (env, ExtensionData x (Some (Send_message_reply sid r ok cid err))) =
            (case map_of (pendingMessageRequests h) r of
               None \<Rightarrow> h
             | Some p \<Rightarrow>
                 h\<lparr> pendingMessageRequests := AList.delete r (pendingMessageRequests h),
                     sent := sent h @
                       (if readyState h (pm_clientWs p) = OPEN
                        then [(pm_clientWs p, ToClient (Send_message_result sid ok cid err))] else []) \<rparr>)"
    by (simp add: send_message_reply_exact)
  show "distinct (map fst (pendingMessageRequests h)) \<and>
          distinct (map fst (pendingEnabledModelsRequests h)) \<and>
          distinct (map fst (pendingCreateChatRequests h)) \<longrightarrow>
            hubStep h (env, SweepTick) =
              h\<lparr> pendingMessageRequests :=
                    filter (\<lambda>x. \<not> nowMs env - pm_timestamp (snd x) > 30000) (pendingMessageRequests h),
                  pendingEnabledModelsRequests :=
                    filter (\<lambda>x. \<not> nowMs env - pe_timestamp (snd x) > 30000) (pendingEnabledModelsRequests h),
                  pendingCreateChatRequests :=
                    filter (\<lambda>x. \<not> nowMs env - pc_timestamp (snd x) > 30000) (pendingCreateChatRequests h),
                  sent := sent h @
                    map (\<lambda>x. (pm_clientWs (snd x),
                              ToClient (Send_message_result (pm_sessionId (snd x)) False None
                                 (Some ''Request timed out''))))
                      (filter (\<lambda>x. nowMs env - pm_timestamp (snd x) > 30000 \<and>
                                    readyState h (pm_clientWs (snd x)) = OPEN) (pendingMessageRequests h)) @
                    map (\<lambda>x. (pe_clientWs (snd x),
                              ToClient (Enabled_models_result (fst x) (pe_instanceId (snd x)) False None
                                 (Some ''Request timed out''))))
                      (filter (\<lambda>x. nowMs env - pe_timestamp (snd x) > 30000 \<and>
                                    readyState h (pe_clientWs (snd x)) = OPEN)
                         (pendingEnabledModelsRequests h)) @
                    map (\<lambda>x. (pc_clientWs (snd x),
                              ToClient (Create_chat_result (fst x) False None (Some ''Request timed out''))))
                      (filter (\<lambda>x. nowMs env - pc_timestamp (snd x) > 30000 \<and>
                                    readyState h (pc_clientWs (snd x)) = OPEN)
                         (pendingCreateChatRequests h)) \<rparr>"
    by (simp add: sweep_exact)
  show "hubStep h (env, ClientData ws (Some (Create_chat r target prompt mode model maxMode))) =
            (case findExtension target h of
               None \<Rightarrow>
                 h\<lparr> sent := sent h @
                       (if readyState h ws = OPEN
                        then [(ws, ToClient (Create_chat_result r False None
                                      (Some ''Extension not connected for this instance'')))]
                        else []) \<rparr>
             | Some ext \<Rightarrow>
                 (if readyState h (x_ws ext) = CONNECTING then
                    h\<lparr> pendingCreateChatRequests := AList.delete r (pendingCreateChatRequests h),
                        sent := sent h @
                          (if readyState h ws = OPEN
                           then [(ws, ToClient (Create_chat_result r False None
                                         (Some (''Failed to forward to extension: '' @
                                                ''Error: WebSocket is not open: readyState 0 (CONNECTING)''))))]
                           else []) \<rparr>
                  else
                    h\<lparr> pendingCreateChatRequests :=
                          AList.update r
                            \<lparr> pc_clientWs = ws, pc_instanceId = target, pc_requestId = r,
                              pc_timestamp = nowMs env \<rparr>
                            (pendingCreateChatRequests h),
                        sent := sent h @
                          (if readyState h (x_ws ext) = OPEN
                           then [(x_ws ext, ToExtension (Create_chat_request r target prompt mode model maxMode))]
                           else []) \<rparr>))"
    by (rule create_chat_request_exact)
  show "hubStep h (env, ClientData ws (Some (Get_enabled_models r target))) =
            (case findExtension target h of
               None \<Rightarrow>
                 h\<lparr> sent := sent h @
                       (if readyState h ws = OPEN
                        then [(ws, ToClient (Enabled_models_result r target False None
                                      (Some ''Extension not connected for this instance'')))]
                        else []) \<rparr>
             | Some ext \<Rightarrow>
                 (if readyState h (x_ws ext) = CONNECTING then
                    h\<lparr> pendingEnabledModelsRequests := AList.delete r (pendingEnabledModelsRequests h),
                        sent := sent h @
                          (if readyState h ws = OPEN
                           then [(ws, ToClient (Enabled_models_result r target False None
                                         (Some (''Failed to forward to extension: '' @
                                                ''Error: WebSocket is not open: readyState 0 (CONNECTING)''))))]
                           else []) \<rparr>
                  else
                    h\<lparr> pendingEnabledModelsRequests :=
                          AList.update r
                            \<lparr> pe_clientWs = ws, pe_instanceId = target, pe_requestId = r,
                              pe_timestamp = nowMs env \<rparr>
                            (pendingEnabledModelsRequests h),
                        sent := sent h @
                          (if readyState h (x_ws ext) = OPEN
                           then [(x_ws ext, ToExtension (Get_enabled_models_request r target))]
                           else []) \<rparr>))"
    by (rule get_enabled_models_request_exact)
  show "map_of (pendingOf k h) r = None \<and> isRequest k r (env, ClientData ws (Some m)) \<longrightarrow>
            (\<exists>extra. results k r (hubRun ((env, ClientData ws (Some m)) # events) h) =
                       results k r h @ extra \<and>
                     length extra \<le> 1 \<and> (\<forall>x \<in> set extra. fst x = ws))"
  proof
    assume a: "map_of (pendingOf k h) r = None \<and> isRequest k r (env, ClientData ws (Some m))"
    show "\<exists>extra. results k r (hubRun ((env, ClientData ws (Some m)) # events) h) =
                       results k r h @ extra \<and>
                     length extra \<le> 1 \<and> (\<forall>x \<in> set extra. fst x = ws)"
      by (rule request_then_run [OF assms(1) a [THEN conjunct1] a [THEN conjunct2] assms(2)])
  qed
qed

lemma pendingHub_eval:
  "pendingCreateChatRequests pendingHub =
     [(''r1'', \<lparr> pc_clientWs = 1, pc_instanceId = ''A'', pc_requestId = ''r1'', pc_timestamp = 1000 \<rparr>)]"
  "pendingEnabledModelsRequests pendingHub = []"
  "pendingMessageRequests pendingHub = []"
  "sent pendingHub = [(7, ToExtension (Create_chat_request ''r1'' ''A'' ''fix the build'' ModeAgent None None))]"
  "readyState pendingHub = (\<lambda>ws. OPEN)"
  by (simp_all add: pendingHub_def connectedHub_def createWebSocketManager_def env0_def
      onClientData_def handleClientMessage_requests findExtension_def wsSend_def Let_def)

theorem at_most_one_result_per_request_witness:
  "map_of (pendingOf CreateChat pendingHub) ''r1'' = Some (1, 1000) \<and>
   results CreateChat ''r1'' pendingHub = [] \<and>
   length (results CreateChat ''r1'' (hubRun timeoutThenReply pendingHub)) \<le> 1 \<and>
   results CreateChat ''r1'' (hubStep pendingHub (env0\<lparr> nowMs := 60000 \<rparr>, SweepTick)) =
     [(1, ToClient (Create_chat_result ''r1'' False None (Some ''Request timed out'')))] \<and>
   map_of (pendingCreateChatRequests (hubStep pendingHub (env0\<lparr> nowMs := 60000 \<rparr>, SweepTick))) ''r1'' = None \<and>
   hubStep pendingHub (env0\<lparr> nowMs := 60000 \<rparr>, SweepTick) =
     pendingHub
       \<lparr> pendingMessageRequests := [], pendingEnabledModelsRequests := [], pendingCreateChatRequests := [],
         sent := sent pendingHub @
           [(1, ToClient (Create_chat_result ''r1'' False None (Some ''Request timed out'')))] \<rparr> \<and>
   map_of (pendingOf CreateChat connectedHub) ''r1'' = None \<and>
   length (results CreateChat ''r1''
             (hubRun ((env0, ClientData 1 (Some (Create_chat ''r1'' ''A'' ''fix the build'' ModeAgent None None)))
                       # timeoutThenReply) connectedHub)) \<le> 1"
proof -
  have d: "distinct (map fst (pendingOf CreateChat pendingHub))"
    by (simp add: pendingOf.simps pendingHub_eval)
  have n: "\<forall>ev \<in> set timeoutThenReply. \<not> isRequest CreateChat ''r1'' ev"
    by (simp add: timeoutThenReply_def)
  have p: "map_of (pendingCreateChatRequests pendingHub) ''r1'' =
             Some \<lparr> pc_clientWs = 1, pc_instanceId = ''A'', pc_requestId = ''r1'', pc_timestamp = 1000 \<rparr>"
    by (simp add: pendingHub_eval)
  have m: "map_of (pendingOf CreateChat pendingHub) ''r1'' = Some (1, 1000)"
    by (simp add: map_of_pendingOf p)
  have r0: "results CreateChat ''r1'' pendingHub = []"
    by (simp add: results_def pendingHub_eval)
  note t = at_most_one_result_per_request [OF d n, where env = "env0\<lparr> nowMs := 60000 \<rparr>"]
  from t [THEN conjunct1] m r0
  have b: "length (results CreateChat ''r1'' (hubRun timeoutThenReply pendingHub)) \<le> 1"
    by auto
  from t [THEN conjunct2, THEN conjunct2, THEN conjunct2, THEN conjunct2, THEN conjunct1] p
  have s: "map_of (pendingCreateChatRequests (hubStep pendingHub (env0\<lparr> nowMs := 60000 \<rparr>, SweepTick))) ''r1'' =
             None \<and>
           results CreateChat ''r1'' (hubStep pendingHub (env0\<lparr> nowMs := 60000 \<rparr>, SweepTick)) =
             [(1, ToClient (Create_chat_result ''r1'' False None (Some ''Request timed out'')))]"
    by (simp add: r0 pendingHub_eval env0_def)
  from t [THEN conjunct2, THEN conjunct2, THEN conjunct2, THEN conjunct2, THEN conjunct2,
          THEN conjunct2, THEN conjunct2, THEN conjunct2, THEN conjunct1]
  have w: "hubStep pendingHub (env0\<lparr> nowMs := 60000 \<rparr>, SweepTick) =
     pendingHub
       \<lparr> pendingMessageRequests := [], pendingEnabledModelsRequests := [], pendingCreateChatRequests := [],
         sent := sent pendingHub @
           [(1, ToClient (Create_chat_result ''r1'' False None (Some ''Request timed out'')))] \<rparr>"
    by (simp add: pendingHub_eval env0_def)
  have c: "connectedHub =
             \<lparr> registry = createInstanceRegistry None, clients = [clientOn 1],
               extensions = [\<lparr> x_ws = 7, x_instanceId = Some ''A'' \<rparr>], pendingMessageRequests = [],
               pendingEnabledModelsRequests = [], pendingCreateChatRequests = [],
               readyState = (\<lambda>ws. OPEN), sent = [], closed = [] \<rparr>"
    by (simp add: connectedHub_def createWebSocketManager_def)
  have d': "distinct (map fst (pendingOf CreateChat connectedHub))"
    by (simp add: pendingOf.simps c)
  have f: "map_of (pendingOf CreateChat connectedHub) ''r1'' = None"
    by (simp add: pendingOf.simps c)
  have r1: "results CreateChat ''r1'' connectedHub = []"
    by (simp add: results_def c)
  note u = at_most_one_result_per_request [OF d' n, where env = env0 and ws = 1
      and m = "Create_chat ''r1'' ''A'' ''fix the build'' ModeAgent None None"]
  from u [THEN conjunct2, THEN conjunct2, THEN conjunct2, THEN conjunct2, THEN conjunct2,
          THEN conjunct2, THEN conjunct2, THEN conjunct2, THEN conjunct2, THEN conjunct2,
          THEN conjunct2] f r1
  have q: "length (results CreateChat ''r1''
             (hubRun ((env0, ClientData 1 (Some (Create_chat ''r1'' ''A'' ''fix the build'' ModeAgent None None)))
                       # timeoutThenReply) connectedHub)) \<le> 1"
    by auto
  from m r0 b s w f q show ?thesis by simp
qed

section \<open>Replay\<close>

subsection \<open>File names\<close>

lemma getTranscriptFile_safe: "safeId sid \<Longrightarrow> getTranscriptFile sid = sid @ ''.jsonl''"
proof -
  assume "safeId sid"
  then have "map (\<lambda>c. if safeChar c then c else CHR ''_'') sid = sid"
    by (intro map_idI) (simp add: safeId_def list_all_iff)
  then show ?thesis by (simp add: getTranscriptFile_def)
qed

lemma dot_unsafe: "\<not> safeChar CHR ''.''"
  by (simp add: safeChar_def)

lemma safeId_no_dot: "safeId sid \<Longrightarrow> CHR ''.'' \<notin> set sid"
  using dot_unsafe by (auto simp: safeId_def list_all_iff)

lemma replaceFirst_suffix:
  "CHR ''.'' \<notin> set sid \<Longrightarrow> replaceFirst ''.jsonl'' '''' (sid @ ''.jsonl'') = sid"
  by (induction sid) auto

lemma endsWith_suffix: "endsWith (sid @ ''.jsonl'') ''.jsonl''"
  by (simp add: endsWith_def)

subsection \<open>Insertion-ordered maps\<close>

lemma foldl_update_append:
  "foldl (\<lambda>m (k, v). AList.update k v m) m xs = m @ xs"
  if "distinct (map fst (m @ xs))"
  using that
proof (induction xs arbitrary: m)
  case Nil
  show ?case by simp
next
  case (Cons x xs)
  obtain k v where x: "x = (k, v)" by (cases x)
  from Cons.prems x have "map_of m k = None" by (auto simp: map_of_eq_None_iff)
  then have u: "AList.update k v m = m @ [(k, v)]" by (rule update_absent)
  from Cons.prems x have "distinct (map fst ((m @ [(k, v)]) @ xs))" by simp
  from Cons.IH [OF this] u x show ?case by simp
qed

lemma foldl_update_id:
  "distinct (map fst xs) \<Longrightarrow> foldl (\<lambda>m (k, v). AList.update k v m) [] xs = xs"
  using foldl_update_append [of "[]" xs] by simp

lemma replayRecord_distinct:
  "distinct (map fst m) \<Longrightarrow> distinct (map fst (replayRecord m rec))"
  by (cases rec) (auto simp: distinct_update split: option.splits)

lemma loadSessions_distinct: "distinct (map fst (loadSessions pm))"
proof -
  have "distinct (map fst m) \<Longrightarrow> distinct (map fst (foldl replayRecord m recs))" for m recs
    by (induction recs arbitrary: m) (simp_all add: replayRecord_distinct)
  then show ?thesis by (simp add: loadSessions_def)
qed

lemma sessions_restart:
  "persistence st = Some pm \<Longrightarrow> sessions (restart st) = loadSessions pm"
  by (simp add: restart_def createInstanceRegistry_def Let_def foldl_update_id loadSessions_distinct)

subsection \<open>What a restart loads\<close>

lemma stem_injective:
  assumes "\<forall>f \<in> set dir. \<exists>sid. safeId sid \<and> fst f = sid @ ''.jsonl''"
    and "distinct (map fst dir)"
  shows "distinct (map (\<lambda>f. replaceFirst ''.jsonl'' '''' (fst f)) dir)"
proof -
  have "inj_on (replaceFirst ''.jsonl'' '''') (set (map fst dir))"
  proof (rule inj_onI)
    fix a b
    assume a: "a \<in> set (map fst dir)" and b: "b \<in> set (map fst dir)"
      and eq: "replaceFirst ''.jsonl'' '''' a = replaceFirst ''.jsonl'' '''' b"
    from a assms(1) obtain sa where sa: "safeId sa" "a = sa @ ''.jsonl''" by auto
    from b assms(1) obtain sb where sb: "safeId sb" "b = sb @ ''.jsonl''" by auto
    from eq sa sb have "sa = sb"
      by (simp add: replaceFirst_suffix safeId_no_dot)
    with sa sb show "a = b" by simp
  qed
  with assms(2) have "distinct (map fst dir) \<and> inj_on (replaceFirst ''.jsonl'' '''') (set (map fst dir))"
    by blast
  then have "distinct (map (replaceFirst ''.jsonl'' '''') (map fst dir))"
    by (rule iffD2 [OF distinct_map])
  then show ?thesis by (simp add: comp_def)
qed

lemma map_of_stems:
  assumes "\<forall>f \<in> set dir. \<exists>sid. safeId sid \<and> fst f = sid @ ''.jsonl''"
  shows "map_of (map (\<lambda>f. (replaceFirst ''.jsonl'' '''' (fst f), snd f)) dir) sid =
           (if safeId sid then map_of dir (sid @ ''.jsonl'') else None)"
  using assms
proof (induction dir)
  case Nil
  show ?case by simp
next
  case (Cons f dir)
  from Cons.prems obtain s where s: "safeId s" "fst f = s @ ''.jsonl''" by auto
  have stem: "replaceFirst ''.jsonl'' '''' (fst f) = s"
    using s by (simp add: replaceFirst_suffix safeId_no_dot)
  from Cons have ih: "map_of (map (\<lambda>f. (replaceFirst ''.jsonl'' '''' (fst f), snd f)) dir) sid =
           (if safeId sid then map_of dir (sid @ ''.jsonl'') else None)"
    by simp
  show ?case
  proof (cases "s = sid")
    case True
    with s stem show ?thesis by (cases f) auto
  next
    case False
    with s stem ih show ?thesis by (cases f) auto
  qed
qed

lemma loadAll_fold:
  assumes ok: "\<forall>f \<in> set (transcriptsDir pm). snd f \<noteq> [] \<and> (\<exists>sid. safeId sid \<and> fst f = sid @ ''.jsonl'')"
    and d: "distinct (map fst (transcriptsDir pm))"
    and sub: "set files \<subseteq> set (transcriptsDir pm)"
  shows "foldl (\<lambda>result file.
              let sessionId = replaceFirst ''.jsonl'' '''' file;
                  events = loadTranscriptEvents pm sessionId
              in if length events > 0 then AList.update sessionId events result else result)
           acc (map fst files) =
         foldl (\<lambda>m (k, v). AList.update k v m) acc
           (map (\<lambda>f. (replaceFirst ''.jsonl'' '''' (fst f), snd f)) files)"
  using sub
proof (induction files arbitrary: acc)
  case Nil
  show ?case by simp
next
  case (Cons f files)
  from Cons.prems have mem: "f \<in> set (transcriptsDir pm)" by simp
  with ok obtain s where s: "safeId s" "fst f = s @ ''.jsonl''" and ne: "snd f \<noteq> []" by auto
  have stem: "replaceFirst ''.jsonl'' '''' (fst f) = s"
    using s by (simp add: replaceFirst_suffix safeId_no_dot)
  from mem have "map_of (transcriptsDir pm) (fst f) = Some (snd f)"
    using map_of_is_SomeI [OF d, of "fst f" "snd f"] by simp
  then have "loadTranscriptEvents pm s = snd f"
    using s by (simp add: loadTranscriptEvents_def readLines_def getTranscriptFile_safe)
  with ne stem Cons show ?case by (simp add: Let_def)
qed

lemma loadAll_wellformed:
  assumes ok: "\<forall>f \<in> set (transcriptsDir pm). snd f \<noteq> [] \<and> (\<exists>sid. safeId sid \<and> fst f = sid @ ''.jsonl'')"
    and d: "distinct (map fst (transcriptsDir pm))"
  shows "loadAllTranscriptEvents pm =
           map (\<lambda>f. (replaceFirst ''.jsonl'' '''' (fst f), snd f)) (transcriptsDir pm)"
proof -
  have all: "filter (\<lambda>f. endsWith f ''.jsonl'') (map fst (transcriptsDir pm)) = map fst (transcriptsDir pm)"
    using ok by (intro filter_True) (auto simp: endsWith_suffix)
  have st: "distinct (map fst (map (\<lambda>f. (replaceFirst ''.jsonl'' '''' (fst f), snd f)) (transcriptsDir pm)))"
    using stem_injective [of "transcriptsDir pm"] ok d by (simp add: comp_def)
  show ?thesis
    unfolding loadAllTranscriptEvents_def all
    using loadAll_fold [OF ok d subset_refl, of "[]"] foldl_update_id [OF st]
    by simp
qed

lemma transcripts_restart:
  assumes p: "persistence st = Some pm"
    and ok: "\<forall>f \<in> set (transcriptsDir pm). snd f \<noteq> [] \<and> (\<exists>sid. safeId sid \<and> fst f = sid @ ''.jsonl'')"
    and d: "distinct (map fst (transcriptsDir pm))"
  shows "getTranscriptEvents sid None (restart st) =
           (if safeId sid then loadTranscriptEvents pm sid else [])"
proof -
  let ?L = "map (\<lambda>f. (replaceFirst ''.jsonl'' '''' (fst f), snd f)) (transcriptsDir pm)"
  have st: "distinct (map fst ?L)"
    using stem_injective [of "transcriptsDir pm"] ok d by (simp add: comp_def)
  have "transcripts (restart st) = ?L"
    using p by (simp add: restart_def createInstanceRegistry_def Let_def loadAll_wellformed [OF ok d]
        foldl_update_id [OF st])
  moreover have "map_of ?L sid = (if safeId sid then map_of (transcriptsDir pm) (sid @ ''.jsonl'') else None)"
    using ok by (intro map_of_stems) auto
  ultimately show ?thesis
    by (simp add: getTranscriptEvents_def loadTranscriptEvents_def readLines_def getTranscriptFile_safe)
qed

lemma map_of_foldl_cond:
  "distinct (map fst xs) \<Longrightarrow>
   map_of (foldl (\<lambda>m (k, es). if P es then AList.update k (F es) m else m) m0 xs) k =
     (case map_of xs k of
        None \<Rightarrow> map_of m0 k
      | Some es \<Rightarrow> if P es then Some (F es) else map_of m0 k)"
proof (induction xs arbitrary: m0)
  case Nil
  show ?case by simp
next
  case (Cons x xs)
  obtain k' es where x: "x = (k', es)" by (cases x)
  from Cons.prems x have none: "map_of xs k' = None" by (simp add: map_of_eq_None_iff)
  from Cons.prems have "distinct (map fst xs)" by simp
  note ih = Cons.IH [OF this]
  show ?case
    using x none by (auto simp: ih update_conv' split: option.splits)
qed

lemma seen_restart:
  assumes p: "persistence st = Some pm"
    and ok: "\<forall>f \<in> set (transcriptsDir pm). snd f \<noteq> [] \<and> (\<exists>sid. safeId sid \<and> fst f = sid @ ''.jsonl'')"
    and d: "distinct (map fst (transcriptsDir pm))"
  shows "ensureSourceIdSet sid (seenSourceIds (restart st)) =
           (if safeId sid then set (sourceIdList (loadTranscriptEvents pm sid)) else {})"
proof -
  let ?L = "map (\<lambda>f. (replaceFirst ''.jsonl'' '''' (fst f), snd f)) (transcriptsDir pm)"
  have st: "distinct (map fst ?L)"
    using stem_injective [of "transcriptsDir pm"] ok d by (simp add: comp_def)
  have m: "map_of ?L sid = (if safeId sid then map_of (transcriptsDir pm) (sid @ ''.jsonl'') else None)"
    using ok by (intro map_of_stems) auto
  have "seenSourceIds (restart st) =
          foldl (\<lambda>m (sessionId, events).
                   let sourceIdSet = set (sourceIdList events)
                   in if sourceIdList events \<noteq> [] then AList.update sessionId sourceIdSet m else m)
                [] ?L"
    using p by (simp add: restart_def createInstanceRegistry_def Let_def loadAll_wellformed [OF ok d])
  then have "map_of (seenSourceIds (restart st)) sid =
               (case map_of ?L sid of
                  None \<Rightarrow> None
                | Some es \<Rightarrow> if sourceIdList es \<noteq> [] then Some (set (sourceIdList es)) else None)"
    using map_of_foldl_cond [OF st, where F = "\<lambda>es. set (sourceIdList es)"
        and P = "\<lambda>es. sourceIdList es \<noteq> []" and ?m0.0 = "[]" and k = sid]
    by (simp split: option.splits)
  then show ?thesis
    by (auto simp: ensureSourceIdSet_def m loadTranscriptEvents_def readLines_def getTranscriptFile_safe
        split: option.splits)
qed

subsection \<open>The session log follows the session map\<close>

lemma update_entries: "p \<in> set (AList.update k v m) \<Longrightarrow> p = (k, v) \<or> p \<in> set m"
  by (induction m) (auto split: if_splits)

lemma loadSessions_persist:
  "loadSessions (persistSessionStart now session pm) =
     replayRecord (loadSessions pm) (RecStart session now)"
  "loadSessions (persistSessionUpdate now sid updates pm) =
     replayRecord (loadSessions pm) (RecUpdate sid (stringifyUpdates updates) now)"
  "loadSessions (persistSessionEnd now sid pm) = replayRecord (loadSessions pm) (RecEnd sid now)"
  "loadSessions (logged e pm) = loadSessions pm"
  by (simp_all add: loadSessions_def persistSessionStart_def persistSessionUpdate_def
      persistSessionEnd_def logged_def)

lemma assign_reactivate:
  "assign s (noUpdates\<lparr> u_status := Some StatusActive, u_instanceId := Some iid \<rparr>) =
     s\<lparr> s_status := StatusActive, s_instanceId := iid \<rparr>"
  by (simp add: assign_def noUpdates_def)

lemma stringify_reactivate:
  "stringifyUpdates (noUpdates\<lparr> u_status := Some StatusActive, u_instanceId := Some iid \<rparr>) =
     noUpdates\<lparr> u_status := Some StatusActive, u_instanceId := Some iid \<rparr>"
  by (simp add: stringifyUpdates_def noUpdates_def)

lemma assign_sessionId:
  "s_sessionId (assign s u) = (case u_sessionId u of None \<Rightarrow> s_sessionId s | Some v \<Rightarrow> v)"
  by (simp add: assign_def)

lemma sessionsConsistentI:
  assumes "persistence st = Some pm"
    and "loadSessions pm = sessions st"
    and "distinct (map fst (sessions st))"
    and "\<forall>p \<in> set (sessions st). s_sessionId (snd p) = fst p"
    and "\<forall>cb \<in> set (sessionListeners st). \<forall>a. \<not> throws cb a"
  shows "sessionsConsistent st"
  using assms by (simp add: sessionsConsistent_def)

lemma sessionsConsistentD:
  assumes "sessionsConsistent st"
  obtains pm where "persistence st = Some pm"
    and "loadSessions pm = sessions st"
    and "distinct (map fst (sessions st))"
    and "\<forall>p \<in> set (sessions st). s_sessionId (snd p) = fst p"
    and "\<forall>cb \<in> set (sessionListeners st). \<forall>a. \<not> throws cb a"
  using assms by (auto simp: sessionsConsistent_def split: option.splits)

lemma notifySession_calm:
  "\<forall>cb \<in> set (sessionListeners st). \<forall>a. \<not> throws cb a \<Longrightarrow>
   notifySession ty s st =
     (False, st\<lparr> notified := notified st @ map (\<lambda>cb. SessionCall (lid cb) ty s) (sessionListeners st) \<rparr>)"
  by (rule notifySession_quiet) simp

lemma sessionsConsistent_entry:
  assumes "persistence st = Some pm"
    and "loadSessions pm = sessions st"
    and "distinct (map fst (sessions st))"
    and "\<forall>p \<in> set (sessions st). s_sessionId (snd p) = fst p"
    and "\<forall>cb \<in> set (sessionListeners st). \<forall>a. \<not> throws cb a"
    and "replayRecord (sessions st) rec = AList.update k s (sessions st)"
    and "s_sessionId s = k"
  shows "sessionsConsistent
           (withPersistence (\<lambda>pm. pm\<lparr> sessionsFile := sessionsFile pm @ [rec] \<rparr>)
              (st\<lparr> sessions := AList.update k s (sessions st), transcripts := tr, notified := n \<rparr>))"
proof (rule sessionsConsistentI)
  show "persistence (withPersistence (\<lambda>pm. pm\<lparr> sessionsFile := sessionsFile pm @ [rec] \<rparr>)
              (st\<lparr> sessions := AList.update k s (sessions st), transcripts := tr, notified := n \<rparr>)) =
          Some (pm\<lparr> sessionsFile := sessionsFile pm @ [rec] \<rparr>)"
    using assms(1) by (simp add: withPersistence_def)
  show "loadSessions (pm\<lparr> sessionsFile := sessionsFile pm @ [rec] \<rparr>) =
          sessions (withPersistence (\<lambda>pm. pm\<lparr> sessionsFile := sessionsFile pm @ [rec] \<rparr>)
              (st\<lparr> sessions := AList.update k s (sessions st), transcripts := tr, notified := n \<rparr>))"
    using assms(2,6) by (simp add: loadSessions_def)
  show "distinct (map fst (sessions (withPersistence (\<lambda>pm. pm\<lparr> sessionsFile := sessionsFile pm @ [rec] \<rparr>)
              (st\<lparr> sessions := AList.update k s (sessions st), transcripts := tr, notified := n \<rparr>))))"
    using assms(3) by (simp add: distinct_update)
  show "\<forall>p \<in> set (sessions (withPersistence (\<lambda>pm. pm\<lparr> sessionsFile := sessionsFile pm @ [rec] \<rparr>)
              (st\<lparr> sessions := AList.update k s (sessions st), transcripts := tr, notified := n \<rparr>))).
          s_sessionId (snd p) = fst p"
    using assms(4,7) by (auto dest!: update_entries)
  show "\<forall>cb \<in> set (sessionListeners (withPersistence (\<lambda>pm. pm\<lparr> sessionsFile := sessionsFile pm @ [rec] \<rparr>)
              (st\<lparr> sessions := AList.update k s (sessions st), transcripts := tr, notified := n \<rparr>))).
          \<forall>a. \<not> throws cb a"
    using assms(5) by simp
qed

lemma sessionsConsistent_startSession:
  assumes "sessionsConsistent st"
  shows "sessionsConsistent (snd (startSession now iid data st))"
proof -
  from assms(1) obtain pm where c: "persistence st = Some pm" "loadSessions pm = sessions st"
    "distinct (map fst (sessions st))" "\<forall>p \<in> set (sessions st). s_sessionId (snd p) = fst p"
    "\<forall>cb \<in> set (sessionListeners st). \<forall>a. \<not> throws cb a"
    by (rule sessionsConsistentD)
  show ?thesis
  proof (cases "map_of (sessions st) (s_sessionId data)")
    case None
    let ?s = "data\<lparr> s_instanceId := iid, s_createdAt := now \<rparr>"
    have "snd (startSession now iid data st) =
            withPersistence (\<lambda>pm. pm\<lparr> sessionsFile := sessionsFile pm @ [RecStart ?s now] \<rparr>)
              (st\<lparr> sessions := AList.update (s_sessionId data) ?s (sessions st),
                   transcripts := AList.update (s_sessionId data) [] (transcripts st),
                   notified := notified st @ map (\<lambda>cb. SessionCall (lid cb) SessStart ?s) (sessionListeners st) \<rparr>)"
      using None c(1,5)
      by (simp add: startSession_def Let_def notifySession_calm withPersistence_def persistSessionStart_def)
    moreover have "sessionsConsistent \<dots>"
      using c by (intro sessionsConsistent_entry) simp_all
    ultimately show ?thesis by simp
  next
    case (Some existing)
    let ?s = "existing\<lparr> s_status := StatusActive, s_instanceId := iid \<rparr>"
    let ?u = "noUpdates\<lparr> u_status := Some StatusActive, u_instanceId := Some iid \<rparr>"
    from Some have mem: "(s_sessionId data, existing) \<in> set (sessions st)" by (rule map_of_SomeD)
    have "snd (startSession now iid data st) =
            withPersistence (\<lambda>pm. pm\<lparr> sessionsFile := sessionsFile pm @ [RecUpdate (s_sessionId data) ?u now] \<rparr>)
              (st\<lparr> sessions := AList.update (s_sessionId data) ?s (sessions st),
                   transcripts := transcripts st,
                   notified := notified st @ map (\<lambda>cb. SessionCall (lid cb) SessUpdate ?s) (sessionListeners st) \<rparr>)"
      using Some c(1,5)
      by (simp add: startSession_def Let_def notifySession_calm withPersistence_def persistSessionUpdate_def
          stringify_reactivate)
    moreover have "sessionsConsistent \<dots>"
      using c Some mem by (intro sessionsConsistent_entry) (auto simp: assign_reactivate)
    ultimately show ?thesis by simp
  qed
qed

lemma sessionsConsistent_updateSession:
  assumes "sessionsConsistent st"
    and "u_sessionId updates = None \<or> u_sessionId updates = Some sid"
    and "stringifyUpdates updates = updates"
  shows "sessionsConsistent (snd (updateSession now sid updates st))"
proof -
  from assms(1) obtain pm where c: "persistence st = Some pm" "loadSessions pm = sessions st"
    "distinct (map fst (sessions st))" "\<forall>p \<in> set (sessions st). s_sessionId (snd p) = fst p"
    "\<forall>cb \<in> set (sessionListeners st). \<forall>a. \<not> throws cb a"
    by (rule sessionsConsistentD)
  show ?thesis
  proof (cases "map_of (sessions st) sid")
    case None
    with assms show ?thesis by (simp add: updateSession_def)
  next
    case (Some session0)
    let ?s = "assign session0 updates"
    from Some have mem: "(sid, session0) \<in> set (sessions st)" by (rule map_of_SomeD)
    with c(4) have "s_sessionId session0 = sid" by auto
    with assms(2) have id: "s_sessionId ?s = sid" by (auto simp: assign_sessionId)
    have "snd (updateSession now sid updates st) =
            withPersistence (\<lambda>pm. pm\<lparr> sessionsFile := sessionsFile pm @ [RecUpdate sid updates now] \<rparr>)
              (st\<lparr> sessions := AList.update sid ?s (sessions st),
                   transcripts := transcripts st,
                   notified := notified st @ map (\<lambda>cb. SessionCall (lid cb) SessUpdate ?s) (sessionListeners st) \<rparr>)"
      using Some c(1,5) assms(3)
      by (simp add: updateSession_def Let_def notifySession_calm withPersistence_def persistSessionUpdate_def)
    moreover have "sessionsConsistent \<dots>"
      using c Some id by (intro sessionsConsistent_entry) auto
    ultimately show ?thesis by simp
  qed
qed

lemma sessionsConsistent_endSession:
  assumes "sessionsConsistent st"
  shows "sessionsConsistent (snd (endSession now sid st))"
proof -
  from assms(1) obtain pm where c: "persistence st = Some pm" "loadSessions pm = sessions st"
    "distinct (map fst (sessions st))" "\<forall>p \<in> set (sessions st). s_sessionId (snd p) = fst p"
    "\<forall>cb \<in> set (sessionListeners st). \<forall>a. \<not> throws cb a"
    by (rule sessionsConsistentD)
  show ?thesis
  proof (cases "map_of (sessions st) sid")
    case None
    with assms show ?thesis by (simp add: endSession_def)
  next
    case (Some session0)
    let ?s = "session0\<lparr> s_status := StatusIdle \<rparr>"
    from Some have mem: "(sid, session0) \<in> set (sessions st)" by (rule map_of_SomeD)
    with c(4) have id: "s_sessionId session0 = sid" by auto
    have "snd (endSession now sid st) =
            withPersistence (\<lambda>pm. pm\<lparr> sessionsFile := sessionsFile pm @ [RecEnd sid now] \<rparr>)
              (st\<lparr> sessions := AList.update sid ?s (sessions st),
                   transcripts := transcripts st,
                   notified := notified st @ map (\<lambda>cb. SessionCall (lid cb) SessEnd ?s) (sessionListeners st) \<rparr>)"
      using Some c(1,5)
      by (simp add: endSession_def Let_def notifySession_calm withPersistence_def persistSessionEnd_def)
    moreover have "sessionsConsistent \<dots>"
      using c Some id by (intro sessionsConsistent_entry) auto
    ultimately show ?thesis by simp
  qed
qed

lemma sessionsConsistent_frame:
  assumes "sessionsConsistent st"
    and "sessions st' = sessions st"
    and "sessionListeners st' = sessionListeners st"
    and "map_option loadSessions (persistence st') = map_option loadSessions (persistence st)"
  shows "sessionsConsistent st'"
proof -
  from assms(1) obtain pm where c: "persistence st = Some pm" "loadSessions pm = sessions st"
    "distinct (map fst (sessions st))" "\<forall>p \<in> set (sessions st). s_sessionId (snd p) = fst p"
    "\<forall>cb \<in> set (sessionListeners st). \<forall>a. \<not> throws cb a"
    by (rule sessionsConsistentD)
  from assms(4) c(1) obtain pm' where p': "persistence st' = Some pm'" "loadSessions pm' = loadSessions pm"
    by (cases "persistence st'") auto
  show ?thesis
    using c p' assms(2,3) by (intro sessionsConsistentI [of st' pm']) simp_all
qed

lemma sessionsConsistent_cong:
  "persistence st' = persistence st \<Longrightarrow> sessions st' = sessions st \<Longrightarrow>
   sessionListeners st' = sessionListeners st \<Longrightarrow> sessionsConsistent st \<Longrightarrow> sessionsConsistent st'"
  by (rule sessionsConsistent_frame) simp_all

lemma update_other_entry: "p \<in> set m \<Longrightarrow> fst p \<noteq> k \<Longrightarrow> p \<in> set (AList.update k v m)"
  by (induction m) auto

lemma sessionsConsistent_loop:
  assumes "sessionsConsistent st" and "set rest \<subseteq> set (sessions st)" and "distinct (map fst rest)"
  shows "sessionsConsistent (snd (removeInstanceLoop now iid rest st))"
  using assms
proof (induction rest arbitrary: st)
  case Nil
  then show ?case by simp
next
  case (Cons p rest)
  obtain key s0 where p: "p = (key, s0)" by (cases p)
  from Cons.prems(1) obtain pm where c: "persistence st = Some pm" "loadSessions pm = sessions st"
    "distinct (map fst (sessions st))" "\<forall>p \<in> set (sessions st). s_sessionId (snd p) = fst p"
    "\<forall>cb \<in> set (sessionListeners st). \<forall>a. \<not> throws cb a"
    by (rule sessionsConsistentD)
  show ?case
  proof (cases "s_instanceId s0 = iid \<and> s_status s0 = StatusActive")
    case False
    then have "removeInstanceLoop now iid (p # rest) st = removeInstanceLoop now iid rest st"
      using p by auto
    moreover have "sessionsConsistent (snd (removeInstanceLoop now iid rest st))"
      using Cons.prems by (intro Cons.IH) auto
    ultimately show ?thesis by simp
  next
    case True
    let ?s = "s0\<lparr> s_status := StatusIdle \<rparr>"
    let ?st2 = "withPersistence (\<lambda>pm. pm\<lparr> sessionsFile := sessionsFile pm @ [RecEnd key now] \<rparr>)
                  (st\<lparr> sessions := AList.update key ?s (sessions st),
                       transcripts := transcripts st,
                       notified := notified st @ map (\<lambda>cb. SessionCall (lid cb) SessEnd ?s) (sessionListeners st) \<rparr>)"
    from Cons.prems(2) p have mem: "(key, s0) \<in> set (sessions st)" by simp
    with c(4) have id: "s_sessionId s0 = key" by auto
    from mem c(3) have look: "map_of (sessions st) key = Some s0" by (simp add: map_of_is_SomeI)
    have step: "removeInstanceLoop now iid (p # rest) st = removeInstanceLoop now iid rest ?st2"
      using True p c(1,5) id
      by (simp add: Let_def notifySession_calm withPersistence_def persistSessionEnd_def)
    have c2: "sessionsConsistent ?st2"
      using c look id by (intro sessionsConsistent_entry) auto
    have sub: "set rest \<subseteq> set (sessions ?st2)"
    proof
      fix q
      assume q: "q \<in> set rest"
      with Cons.prems(3) p have "fst q \<noteq> key" by auto
      moreover from q Cons.prems(2) have "q \<in> set (sessions st)" by auto
      ultimately show "q \<in> set (sessions ?st2)"
        by (simp add: withPersistence_def update_other_entry)
    qed
    from Cons.prems(3) have "distinct (map fst rest)" by simp
    from Cons.IH [OF c2 sub this] step show ?thesis by simp
  qed
qed

lemma sessionsConsistent_removeInstance:
  assumes "sessionsConsistent st"
  shows "sessionsConsistent (snd (removeInstance now iid st))"
proof (cases "map_of (instances st) iid")
  case None
  with assms show ?thesis by (simp add: removeInstance_def)
next
  case (Some inst)
  let ?st1 = "st\<lparr> instances := AList.delete iid (instances st) \<rparr>"
  let ?l = "removeInstanceLoop now iid (sessions st) ?st1"
  from assms have c1: "sessionsConsistent ?st1" by (rule sessionsConsistent_frame) simp_all
  from assms have "distinct (map fst (sessions st))" by (auto elim: sessionsConsistentD)
  with c1 have c2: "sessionsConsistent (snd ?l)"
    by (intro sessionsConsistent_loop) simp_all
  then have "sessionsConsistent (snd (notifyInstance InstDisconnect inst (snd ?l)))"
    by (rule sessionsConsistent_frame) simp_all
  with c2 Some show ?thesis
    by (cases "fst ?l") (simp_all add: removeInstance_def Let_def split_beta)
qed

lemma sessionsConsistent_addTranscriptEvent:
  assumes "sessionsConsistent st"
  shows "sessionsConsistent (snd (addTranscriptEvent eid now data st))"
  using assms
proof (rule sessionsConsistent_frame)
  show "sessions (snd (addTranscriptEvent eid now data st)) = sessions st"
    by simp
  show "sessionListeners (snd (addTranscriptEvent eid now data st)) = sessionListeners st"
    by (simp add: addTranscriptEvent_cases Let_def)
  show "map_option loadSessions (persistence (snd (addTranscriptEvent eid now data st))) =
          map_option loadSessions (persistence st)"
    by (cases "persistence st") (simp_all add: addTranscriptEvent_cases Let_def loadSessions_persist)
qed

lemma sessionsConsistent_exec:
  assumes "sessionsConsistent st" and "replayable op st"
  shows "sessionsConsistent (exec op st)"
proof (cases op)
  case (RegisterInstance now data)
  from assms(1) have "sessionsConsistent (snd (registerInstance now data st))"
    by (rule sessionsConsistent_frame) (simp_all add: registerInstance_def Let_def split_beta)
  with RegisterInstance show ?thesis by simp
next
  case (UpdateHeartbeat now iid)
  from assms(1) have "sessionsConsistent (snd (updateHeartbeat now iid st))"
    by (rule sessionsConsistent_frame)
       (cases "map_of (instances st) iid"; simp add: updateHeartbeat_def Let_def split_beta)+
  with UpdateHeartbeat show ?thesis by simp
next
  case (RemoveInstance now iid)
  with assms show ?thesis by (simp add: sessionsConsistent_removeInstance)
next
  case (StartSession now iid data)
  with assms show ?thesis by (simp add: sessionsConsistent_startSession)
next
  case (UpdateSession now sid updates)
  with assms show ?thesis by (simp add: sessionsConsistent_updateSession)
next
  case (EndSession now sid)
  with assms show ?thesis by (simp add: sessionsConsistent_endSession)
next
  case (AddTranscriptEvent eid now data)
  with assms show ?thesis by (simp add: sessionsConsistent_addTranscriptEvent)
next
  case (OnInstanceChange cb)
  from assms(1) have "sessionsConsistent (onInstanceChange cb st)"
    by (rule sessionsConsistent_frame) (simp_all add: onInstanceChange_def)
  with OnInstanceChange show ?thesis by simp
next
  case (OnSessionChange cb)
  from assms(1) obtain pm where c: "persistence st = Some pm" "loadSessions pm = sessions st"
    "distinct (map fst (sessions st))" "\<forall>p \<in> set (sessions st). s_sessionId (snd p) = fst p"
    "\<forall>cb \<in> set (sessionListeners st). \<forall>a. \<not> throws cb a"
    by (rule sessionsConsistentD)
  from assms(2) OnSessionChange have "\<forall>a. \<not> throws cb a" by simp
  with c have "sessionsConsistent (onSessionChange cb st)"
    by (intro sessionsConsistentI [of _ pm]) (auto simp: onSessionChange_def setAdd_def)
  with OnSessionChange show ?thesis by simp
next
  case (OnTranscriptEvent cb)
  from assms(1) have "sessionsConsistent (onTranscriptEvent cb st)"
    by (rule sessionsConsistent_frame) (simp_all add: onTranscriptEvent_def)
  with OnTranscriptEvent show ?thesis by simp
next
  case (OffInstanceChange cb)
  from assms(1) have "sessionsConsistent (offInstanceChange cb st)"
    by (rule sessionsConsistent_frame) (simp_all add: offInstanceChange_def)
  with OffInstanceChange show ?thesis by simp
next
  case (OffSessionChange cb)
  from assms(1) obtain pm where c: "persistence st = Some pm" "loadSessions pm = sessions st"
    "distinct (map fst (sessions st))" "\<forall>p \<in> set (sessions st). s_sessionId (snd p) = fst p"
    "\<forall>cb \<in> set (sessionListeners st). \<forall>a. \<not> throws cb a"
    by (rule sessionsConsistentD)
  then have "sessionsConsistent (offSessionChange cb st)"
    by (intro sessionsConsistentI [of _ pm]) (auto simp: offSessionChange_def setDelete_def)
  with OffSessionChange show ?thesis by simp
next
  case (OffTranscriptEvent cb)
  from assms(1) have "sessionsConsistent (offTranscriptEvent cb st)"
    by (rule sessionsConsistent_frame) (simp_all add: offTranscriptEvent_def)
  with OffTranscriptEvent show ?thesis by simp
qed

subsection \<open>The transcript files follow the transcript lists\<close>

lemma transcriptsConsistentD:
  assumes "transcriptsConsistent st"
  obtains pm where "persistence st = Some pm"
    and "distinct (map fst (transcriptsDir pm))"
    and "\<forall>f \<in> set (transcriptsDir pm).
           snd f \<noteq> [] \<and> (\<exists>sid. safeId sid \<and> sid \<in> fst ` set (sessions st) \<and> fst f = sid @ ''.jsonl'')"
    and "\<forall>sid. if safeId sid
                  then getTranscriptEvents sid None st = loadTranscriptEvents pm sid \<or>
                       getTranscriptEvents sid None st =
                         drop (length (loadTranscriptEvents pm sid) - MAX_EVENTS_PER_SESSION)
                           (loadTranscriptEvents pm sid)
                  else getTranscriptEvents sid None st = []"
    and "\<forall>sid. ensureSourceIdSet sid (seenSourceIds st) =
                  (if safeId sid then set (sourceIdList (loadTranscriptEvents pm sid)) else {})"
  using assms by (auto simp: transcriptsConsistent_def split: option.splits)

lemma transcriptsConsistentI:
  assumes "persistence st = Some pm"
    and "distinct (map fst (transcriptsDir pm))"
    and "\<forall>f \<in> set (transcriptsDir pm).
           snd f \<noteq> [] \<and> (\<exists>sid. safeId sid \<and> sid \<in> fst ` set (sessions st) \<and> fst f = sid @ ''.jsonl'')"
    and "\<forall>sid. if safeId sid
                  then getTranscriptEvents sid None st = loadTranscriptEvents pm sid \<or>
                       getTranscriptEvents sid None st =
                         drop (length (loadTranscriptEvents pm sid) - MAX_EVENTS_PER_SESSION)
                           (loadTranscriptEvents pm sid)
                  else getTranscriptEvents sid None st = []"
    and "\<forall>sid. ensureSourceIdSet sid (seenSourceIds st) =
                  (if safeId sid then set (sourceIdList (loadTranscriptEvents pm sid)) else {})"
  shows "transcriptsConsistent st"
  using assms by (simp add: transcriptsConsistent_def)

lemma transcriptsConsistent_frame:
  assumes "transcriptsConsistent st"
    and "\<forall>sid. getTranscriptEvents sid None st' = getTranscriptEvents sid None st"
    and "seenSourceIds st' = seenSourceIds st"
    and "map_option transcriptsDir (persistence st') = map_option transcriptsDir (persistence st)"
    and "fst ` set (sessions st) \<subseteq> fst ` set (sessions st')"
  shows "transcriptsConsistent st'"
proof -
  from assms(1) obtain pm where c: "persistence st = Some pm"
    "distinct (map fst (transcriptsDir pm))"
    "\<forall>f \<in> set (transcriptsDir pm).
           snd f \<noteq> [] \<and> (\<exists>sid. safeId sid \<and> sid \<in> fst ` set (sessions st) \<and> fst f = sid @ ''.jsonl'')"
    "\<forall>sid. if safeId sid
                  then getTranscriptEvents sid None st = loadTranscriptEvents pm sid \<or>
                       getTranscriptEvents sid None st =
                         drop (length (loadTranscriptEvents pm sid) - MAX_EVENTS_PER_SESSION)
                           (loadTranscriptEvents pm sid)
                  else getTranscriptEvents sid None st = []"
    "\<forall>sid. ensureSourceIdSet sid (seenSourceIds st) =
                  (if safeId sid then set (sourceIdList (loadTranscriptEvents pm sid)) else {})"
    by (rule transcriptsConsistentD)
  from assms(4) c(1) obtain pm' where p': "persistence st' = Some pm'" "transcriptsDir pm' = transcriptsDir pm"
    by (cases "persistence st'") auto
  have l: "loadTranscriptEvents pm' = loadTranscriptEvents pm"
    using p'(2) by (simp add: loadTranscriptEvents_def fun_eq_iff)
  show ?thesis
  proof (rule transcriptsConsistentI [OF p'(1)])
    show "distinct (map fst (transcriptsDir pm'))" using c(2) p'(2) by simp
    show "\<forall>f \<in> set (transcriptsDir pm').
           snd f \<noteq> [] \<and> (\<exists>sid. safeId sid \<and> sid \<in> fst ` set (sessions st') \<and> fst f = sid @ ''.jsonl'')"
    proof
      fix f
      assume "f \<in> set (transcriptsDir pm')"
      with c(3) p'(2) have "snd f \<noteq> [] \<and>
          (\<exists>sid. safeId sid \<and> sid \<in> fst ` set (sessions st) \<and> fst f = sid @ ''.jsonl'')"
        by simp
      then obtain sid where "snd f \<noteq> []" "safeId sid" "sid \<in> fst ` set (sessions st)"
        "fst f = sid @ ''.jsonl''"
        by blast
      with assms(5) show "snd f \<noteq> [] \<and>
          (\<exists>sid. safeId sid \<and> sid \<in> fst ` set (sessions st') \<and> fst f = sid @ ''.jsonl'')"
        by blast
    qed
    show "\<forall>sid. if safeId sid
                  then getTranscriptEvents sid None st' = loadTranscriptEvents pm' sid \<or>
                       getTranscriptEvents sid None st' =
                         drop (length (loadTranscriptEvents pm' sid) - MAX_EVENTS_PER_SESSION)
                           (loadTranscriptEvents pm' sid)
                  else getTranscriptEvents sid None st' = []"
      using c(4) assms(2) by (simp add: l)
    show "\<forall>sid. ensureSourceIdSet sid (seenSourceIds st') =
                  (if safeId sid then set (sourceIdList (loadTranscriptEvents pm' sid)) else {})"
      using c(5) assms(3) by (simp add: l)
  qed
qed

text \<open>What a session operation leaves alone, whether its listeners throw or not.\<close>

lemma persist_session_dir [simp]:
  "transcriptsDir (persistSessionStart now s pm) = transcriptsDir pm"
  "transcriptsDir (persistSessionUpdate now sid u pm) = transcriptsDir pm"
  "transcriptsDir (persistSessionEnd now sid pm) = transcriptsDir pm"
  by (simp_all add: persistSessionStart_def persistSessionUpdate_def persistSessionEnd_def)

lemma persist_session_dir_option [simp]:
  "map_option transcriptsDir (map_option (persistSessionStart now s) p) = map_option transcriptsDir p"
  "map_option transcriptsDir (map_option (persistSessionUpdate now sid u) p) = map_option transcriptsDir p"
  "map_option transcriptsDir (map_option (persistSessionEnd now sid) p) = map_option transcriptsDir p"
  by (cases p; simp)+

lemma startSession_frame:
  "seenSourceIds (snd (startSession now iid data st)) = seenSourceIds st"
  "map_option transcriptsDir (persistence (snd (startSession now iid data st))) =
     map_option transcriptsDir (persistence st)"
  "fst ` set (sessions (snd (startSession now iid data st))) =
     insert (s_sessionId data) (fst ` set (sessions st))"
  "transcripts (snd (startSession now iid data st)) =
     (case map_of (sessions st) (s_sessionId data) of
        None \<Rightarrow> AList.update (s_sessionId data) [] (transcripts st)
      | Some existing \<Rightarrow> transcripts st)"
proof -
  show "seenSourceIds (snd (startSession now iid data st)) = seenSourceIds st"
    by (cases "map_of (sessions st) (s_sessionId data)") (simp_all add: startSession_def Let_def split_beta)
  show "map_option transcriptsDir (persistence (snd (startSession now iid data st))) =
     map_option transcriptsDir (persistence st)"
    by (cases "map_of (sessions st) (s_sessionId data)") (simp_all add: startSession_def Let_def split_beta)
  show "fst ` set (sessions (snd (startSession now iid data st))) =
     insert (s_sessionId data) (fst ` set (sessions st))"
    by (cases "map_of (sessions st) (s_sessionId data)")
       (simp_all add: startSession_def Let_def split_beta dom_update)
  show "transcripts (snd (startSession now iid data st)) =
     (case map_of (sessions st) (s_sessionId data) of
        None \<Rightarrow> AList.update (s_sessionId data) [] (transcripts st)
      | Some existing \<Rightarrow> transcripts st)"
    by (cases "map_of (sessions st) (s_sessionId data)") (simp_all add: startSession_def Let_def split_beta)
qed

lemma updateSession_frame:
  "seenSourceIds (snd (updateSession now sid updates st)) = seenSourceIds st"
  "map_option transcriptsDir (persistence (snd (updateSession now sid updates st))) =
     map_option transcriptsDir (persistence st)"
  "fst ` set (sessions st) \<subseteq> fst ` set (sessions (snd (updateSession now sid updates st)))"
  "transcripts (snd (updateSession now sid updates st)) = transcripts st"
proof -
  show "seenSourceIds (snd (updateSession now sid updates st)) = seenSourceIds st"
    by (cases "map_of (sessions st) sid") (simp_all add: updateSession_def Let_def split_beta)
  show "map_option transcriptsDir (persistence (snd (updateSession now sid updates st))) =
     map_option transcriptsDir (persistence st)"
    by (cases "map_of (sessions st) sid") (simp_all add: updateSession_def Let_def split_beta)
  show "fst ` set (sessions st) \<subseteq> fst ` set (sessions (snd (updateSession now sid updates st)))"
    by (cases "map_of (sessions st) sid")
       (auto simp add: updateSession_def Let_def split_beta dom_update)
  show "transcripts (snd (updateSession now sid updates st)) = transcripts st"
    by (cases "map_of (sessions st) sid") (simp_all add: updateSession_def Let_def split_beta)
qed

lemma endSession_frame:
  "seenSourceIds (snd (endSession now sid st)) = seenSourceIds st"
  "map_option transcriptsDir (persistence (snd (endSession now sid st))) =
     map_option transcriptsDir (persistence st)"
  "fst ` set (sessions st) \<subseteq> fst ` set (sessions (snd (endSession now sid st)))"
  "transcripts (snd (endSession now sid st)) = transcripts st"
proof -
  show "seenSourceIds (snd (endSession now sid st)) = seenSourceIds st"
    by (cases "map_of (sessions st) sid") (simp_all add: endSession_def Let_def split_beta)
  show "map_option transcriptsDir (persistence (snd (endSession now sid st))) =
     map_option transcriptsDir (persistence st)"
    by (cases "map_of (sessions st) sid") (simp_all add: endSession_def Let_def split_beta)
  show "fst ` set (sessions st) \<subseteq> fst ` set (sessions (snd (endSession now sid st)))"
    by (cases "map_of (sessions st) sid")
       (auto simp add: endSession_def Let_def split_beta dom_update)
  show "transcripts (snd (endSession now sid st)) = transcripts st"
    by (cases "map_of (sessions st) sid") (simp_all add: endSession_def Let_def split_beta)
qed

lemma loop_frame:
  "transcripts (snd (removeInstanceLoop now iid rest st)) = transcripts st \<and>
   seenSourceIds (snd (removeInstanceLoop now iid rest st)) = seenSourceIds st \<and>
   map_option transcriptsDir (persistence (snd (removeInstanceLoop now iid rest st))) =
     map_option transcriptsDir (persistence st) \<and>
   fst ` set (sessions st) \<subseteq> fst ` set (sessions (snd (removeInstanceLoop now iid rest st)))"
proof (induction rest arbitrary: st)
  case Nil
  show ?case by simp
next
  case (Cons p rest)
  obtain key s0 where p: "p = (key, s0)" by (cases p)
  show ?case
  proof (cases "s_instanceId s0 = iid \<and> s_status s0 = StatusActive")
    case False
    then have "removeInstanceLoop now iid (p # rest) st = removeInstanceLoop now iid rest st"
      using p by auto
    with Cons.IH [of st] show ?thesis by simp
  next
    case owned: True
    let ?s = "s0\<lparr> s_status := StatusIdle \<rparr>"
    let ?n = "notifySession SessEnd ?s (st\<lparr> sessions := AList.update key ?s (sessions st) \<rparr>)"
    show ?thesis
    proof (cases "fst ?n")
      case True
      then have "removeInstanceLoop now iid (p # rest) st = (Inl ListenerThrew, snd ?n)"
        using p owned by (simp add: Let_def split_beta)
      then show ?thesis by (auto simp: dom_update)
    next
      case False
      let ?st2 = "withPersistence (persistSessionEnd now (s_sessionId ?s)) (snd ?n)"
      from False have "removeInstanceLoop now iid (p # rest) st = removeInstanceLoop now iid rest ?st2"
        using p owned by (simp add: Let_def split_beta)
      with Cons.IH [of ?st2] show ?thesis by (auto simp: dom_update)
    qed
  qed
qed

lemma transcriptsConsistent_removeInstance:
  assumes "transcriptsConsistent st"
  shows "transcriptsConsistent (snd (removeInstance now iid st))"
proof (cases "map_of (instances st) iid")
  case None
  with assms show ?thesis by (simp add: removeInstance_def)
next
  case (Some inst)
  let ?st1 = "st\<lparr> instances := AList.delete iid (instances st) \<rparr>"
  let ?l = "removeInstanceLoop now iid (sessions st) ?st1"
  note f = loop_frame [of now iid "sessions st" ?st1]
  have eq: "snd (removeInstance now iid st) =
              (case fst ?l of Inl e \<Rightarrow> snd ?l | Inr u \<Rightarrow> snd (notifyInstance InstDisconnect inst (snd ?l)))"
    using Some by (cases "fst ?l") (simp_all add: removeInstance_def Let_def split_beta)
  from assms show ?thesis
  proof (rule transcriptsConsistent_frame)
    show "\<forall>sid. getTranscriptEvents sid None (snd (removeInstance now iid st)) =
            getTranscriptEvents sid None st"
      using f by (cases "fst ?l") (simp_all add: eq getTranscriptEvents_def)
    show "seenSourceIds (snd (removeInstance now iid st)) = seenSourceIds st"
      using f by (cases "fst ?l") (simp_all add: eq)
    show "map_option transcriptsDir (persistence (snd (removeInstance now iid st))) =
            map_option transcriptsDir (persistence st)"
      using f by (cases "fst ?l") (simp_all add: eq)
    show "fst ` set (sessions st) \<subseteq> fst ` set (sessions (snd (removeInstance now iid st)))"
      using f by (cases "fst ?l") (simp_all add: eq)
  qed
qed

lemma unknown_session_empty:
  assumes "transcriptsConsistent st" and "sid \<notin> fst ` set (sessions st)"
  shows "getTranscriptEvents sid None st = []"
proof -
  from assms(1) obtain pm where c: "persistence st = Some pm"
    "distinct (map fst (transcriptsDir pm))"
    "\<forall>f \<in> set (transcriptsDir pm).
           snd f \<noteq> [] \<and> (\<exists>sid. safeId sid \<and> sid \<in> fst ` set (sessions st) \<and> fst f = sid @ ''.jsonl'')"
    "\<forall>sid. if safeId sid
                  then getTranscriptEvents sid None st = loadTranscriptEvents pm sid \<or>
                       getTranscriptEvents sid None st =
                         drop (length (loadTranscriptEvents pm sid) - MAX_EVENTS_PER_SESSION)
                           (loadTranscriptEvents pm sid)
                  else getTranscriptEvents sid None st = []"
    "\<forall>sid. ensureSourceIdSet sid (seenSourceIds st) =
                  (if safeId sid then set (sourceIdList (loadTranscriptEvents pm sid)) else {})"
    by (rule transcriptsConsistentD)
  have "map_of (transcriptsDir pm) (sid @ ''.jsonl'') = None"
  proof (cases "map_of (transcriptsDir pm) (sid @ ''.jsonl'')")
    case None
    then show ?thesis .
  next
    case (Some ls)
    then have "(sid @ ''.jsonl'', ls) \<in> set (transcriptsDir pm)" by (rule map_of_SomeD)
    with c(3) obtain sid' where "sid' \<in> fst ` set (sessions st)" "sid @ ''.jsonl'' = sid' @ ''.jsonl''"
      by fastforce
    with assms(2) show ?thesis by simp
  qed
  then have "safeId sid \<Longrightarrow> loadTranscriptEvents pm sid = []"
    by (simp add: loadTranscriptEvents_def readLines_def getTranscriptFile_safe)
  with c(4) [THEN spec, of sid] show ?thesis by (cases "safeId sid") auto
qed

lemma transcriptsConsistent_startSession:
  assumes "transcriptsConsistent st"
  shows "transcriptsConsistent (snd (startSession now iid data st))"
  using assms
proof (rule transcriptsConsistent_frame)
  show "\<forall>sid. getTranscriptEvents sid None (snd (startSession now iid data st)) =
          getTranscriptEvents sid None st"
  proof (cases "map_of (sessions st) (s_sessionId data)")
    case (Some existing)
    then show ?thesis by (simp add: getTranscriptEvents_def startSession_frame)
  next
    case None
    then have "s_sessionId data \<notin> fst ` set (sessions st)" by (simp add: map_of_eq_None_iff)
    with assms have "getTranscriptEvents (s_sessionId data) None st = []"
      by (rule unknown_session_empty)
    then have "(case map_of (transcripts st) (s_sessionId data) of None \<Rightarrow> [] | Some es \<Rightarrow> es) = []"
      by (simp add: getTranscriptEvents_def)
    with None show ?thesis
      by (simp add: getTranscriptEvents_def startSession_frame update_conv')
  qed
  show "seenSourceIds (snd (startSession now iid data st)) = seenSourceIds st"
    by (rule startSession_frame)
  show "map_option transcriptsDir (persistence (snd (startSession now iid data st))) =
          map_option transcriptsDir (persistence st)"
    by (rule startSession_frame)
  show "fst ` set (sessions st) \<subseteq> fst ` set (sessions (snd (startSession now iid data st)))"
    by (auto simp: startSession_frame)
qed

lemma transcriptsConsistent_updateSession:
  assumes "transcriptsConsistent st"
  shows "transcriptsConsistent (snd (updateSession now sid updates st))"
  using assms
  by (rule transcriptsConsistent_frame)
     (simp_all add: updateSession_frame getTranscriptEvents_def)

lemma transcriptsConsistent_endSession:
  assumes "transcriptsConsistent st"
  shows "transcriptsConsistent (snd (endSession now sid st))"
  using assms
  by (rule transcriptsConsistent_frame)
     (simp_all add: endSession_frame getTranscriptEvents_def)

lemma sourceIdList_append: "sourceIdList (xs @ ys) = sourceIdList xs @ sourceIdList ys"
  by (induction xs) auto

lemma loadTranscriptEvents_other:
  "safeId S \<Longrightarrow> safeId sid \<Longrightarrow> sid \<noteq> S \<Longrightarrow> e_sessionId e = S \<Longrightarrow>
   loadTranscriptEvents (logged e pm) sid = loadTranscriptEvents pm sid"
  by (simp add: loadTranscriptEvents_def logged_def readLines_def update_conv' getTranscriptFile_safe)

lemma transcriptsConsistent_addTranscriptEvent:
  assumes "transcriptsConsistent st" and "safeId (e_sessionId data)"
    and "e_sessionId data \<in> fst ` set (sessions st)"
    and "accepts st (e_sessionId data)"
  shows "transcriptsConsistent (snd (addTranscriptEvent eid now data st))"
proof (cases "truthy (e_sourceId data) \<and>
              the (e_sourceId data) \<in> ensureSourceIdSet (e_sessionId data) (seenSourceIds st)")
  case True
  then have "addTranscriptEvent eid now data st = (Inr None, st)"
    by (simp add: addTranscriptEvent_cases)
  with assms show ?thesis by simp
next
  case False
  let ?S = "e_sessionId data"
  let ?e = "data\<lparr> e_eventId := eid, e_ts := now \<rparr>"
  let ?st' = "snd (addTranscriptEvent eid now data st)"
  note step = addTranscriptEvent_step [OF False, of eid now]
  note eq = addTranscriptEvent_fresh_cases [OF False, of eid now]
  from assms(1) obtain pm where c: "persistence st = Some pm"
    "distinct (map fst (transcriptsDir pm))"
    "\<forall>f \<in> set (transcriptsDir pm).
           snd f \<noteq> [] \<and> (\<exists>sid. safeId sid \<and> sid \<in> fst ` set (sessions st) \<and> fst f = sid @ ''.jsonl'')"
    "\<forall>sid. if safeId sid
           then getTranscriptEvents sid None st = loadTranscriptEvents pm sid \<or>
                getTranscriptEvents sid None st =
                  drop (length (loadTranscriptEvents pm sid) - MAX_EVENTS_PER_SESSION)
                    (loadTranscriptEvents pm sid)
           else getTranscriptEvents sid None st = []"
    "\<forall>sid. ensureSourceIdSet sid (seenSourceIds st) =
                  (if safeId sid then set (sourceIdList (loadTranscriptEvents pm sid)) else {})"
    by (rule transcriptsConsistentD)
  let ?pm' = "logged ?e pm"
  let ?L = "loadTranscriptEvents pm ?S"
  have p': "persistence ?st' = Some ?pm'"
    using step(3) c(1) assms(4) by simp
  have dir': "transcriptsDir ?pm' = AList.update (?S @ ''.jsonl'') (?L @ [?e]) (transcriptsDir pm)"
    using assms(2)
    by (simp add: logged_def loadTranscriptEvents_def getTranscriptFile_safe)
  have sess: "sessions ?st' = sessions st"
    by simp
  have t: "getTranscriptEvents sid None ?st' = getTranscriptEvents sid None (remembered ?e st)" for sid
    by (rule getTranscriptEvents_cong) (simp add: eq)
  have other_t: "getTranscriptEvents sid None ?st' = getTranscriptEvents sid None st" if "sid \<noteq> ?S" for sid
    using that by (simp add: t remembered_transcripts)
  have "seenSourceIds ?st' = seenSourceIds (remembered ?e st)"
    by (simp add: eq)
  then have other_s: "ensureSourceIdSet sid (seenSourceIds ?st') = ensureSourceIdSet sid (seenSourceIds st)"
    if "sid \<noteq> ?S" for sid
    using that by (simp add: remembered_seen)
  have load_S: "loadTranscriptEvents ?pm' ?S = ?L @ [?e]"
    by (rule loadTranscriptEvents_persist) simp
  have load_other: "loadTranscriptEvents ?pm' sid = loadTranscriptEvents pm sid"
    if "safeId sid" "sid \<noteq> ?S" for sid
    using assms(2) that by (simp add: loadTranscriptEvents_other)
  show ?thesis
  proof (rule transcriptsConsistentI [OF p'])
    show "distinct (map fst (transcriptsDir ?pm'))"
      using c(2) by (simp add: dir' distinct_update)
    show "\<forall>f \<in> set (transcriptsDir ?pm').
           snd f \<noteq> [] \<and> (\<exists>sid. safeId sid \<and> sid \<in> fst ` set (sessions ?st') \<and> fst f = sid @ ''.jsonl'')"
    proof
      fix f
      assume "f \<in> set (transcriptsDir ?pm')"
      then have "f = (?S @ ''.jsonl'', ?L @ [?e]) \<or> f \<in> set (transcriptsDir pm)"
        unfolding dir' by (rule update_entries)
      then show "snd f \<noteq> [] \<and>
          (\<exists>sid. safeId sid \<and> sid \<in> fst ` set (sessions ?st') \<and> fst f = sid @ ''.jsonl'')"
      proof
        assume "f = (?S @ ''.jsonl'', ?L @ [?e])"
        with assms(2,3) show ?thesis unfolding sess by auto
      next
        assume "f \<in> set (transcriptsDir pm)"
        with c(3) show ?thesis unfolding sess by blast
      qed
    qed
    show "\<forall>sid. if safeId sid
           then getTranscriptEvents sid None ?st' = loadTranscriptEvents ?pm' sid \<or>
                getTranscriptEvents sid None ?st' =
                  drop (length (loadTranscriptEvents ?pm' sid) - MAX_EVENTS_PER_SESSION)
                    (loadTranscriptEvents ?pm' sid)
           else getTranscriptEvents sid None ?st' = []"
    proof
      fix sid
      show "if safeId sid
           then getTranscriptEvents sid None ?st' = loadTranscriptEvents ?pm' sid \<or>
                getTranscriptEvents sid None ?st' =
                  drop (length (loadTranscriptEvents ?pm' sid) - MAX_EVENTS_PER_SESSION)
                    (loadTranscriptEvents ?pm' sid)
           else getTranscriptEvents sid None ?st' = []"
      proof (cases "sid = ?S")
        case True
        from c(4) assms(2) have "getTranscriptEvents ?S None st = ?L \<or>
            getTranscriptEvents ?S None st = drop (length ?L - MAX_EVENTS_PER_SESSION) ?L"
          by (simp split: if_splits)
        then have "getTranscriptEvents ?S None ?st' =
                     drop (length ?L + length [?e] - MAX_EVENTS_PER_SESSION) (?L @ [?e])"
        proof
          assume "getTranscriptEvents ?S None st = ?L"
          with step(1) show ?thesis by (simp add: evict_drop)
        next
          assume g: "getTranscriptEvents ?S None st = drop (length ?L - MAX_EVENTS_PER_SESSION) ?L"
          have "getTranscriptEvents ?S None ?st' =
                drop (length (drop (length ?L - MAX_EVENTS_PER_SESSION) ?L) + length [?e] - MAX_EVENTS_PER_SESSION)
                  (drop (length ?L - MAX_EVENTS_PER_SESSION) ?L @ [?e])"
            using step(1) by (simp add: g evict_drop)
          also have "\<dots> = drop (length ?L + length [?e] - MAX_EVENTS_PER_SESSION) (?L @ [?e])"
            by (rule drop_window)
          finally show ?thesis .
        qed
        with True assms(2) show ?thesis by (simp add: load_S)
      next
        case False
        with c(4) [THEN spec, of sid] show ?thesis by (simp add: other_t load_other)
      qed
    qed
    show "\<forall>sid. ensureSourceIdSet sid (seenSourceIds ?st') =
                  (if safeId sid then set (sourceIdList (loadTranscriptEvents ?pm' sid)) else {})"
    proof
      fix sid
      show "ensureSourceIdSet sid (seenSourceIds ?st') =
                  (if safeId sid then set (sourceIdList (loadTranscriptEvents ?pm' sid)) else {})"
      proof (cases "sid = ?S")
        case True
        have "ensureSourceIdSet ?S (seenSourceIds st) = set (sourceIdList ?L)"
          using c(5) assms(2) by simp
        with step(2) True assms(2) show ?thesis
          by (simp add: load_S sourceIdList_append)
      next
        case False
        with c(5) show ?thesis by (simp add: other_s load_other)
      qed
    qed
  qed
qed

lemma transcriptsConsistent_exec:
  assumes "transcriptsConsistent st" and "replayable op st"
  shows "transcriptsConsistent (exec op st)"
proof (cases op)
  case (RegisterInstance now data)
  from assms(1) have "transcriptsConsistent (snd (registerInstance now data st))"
    by (rule transcriptsConsistent_frame)
       (simp_all add: registerInstance_def Let_def split_beta getTranscriptEvents_def)
  with RegisterInstance show ?thesis by simp
next
  case (UpdateHeartbeat now iid)
  from assms(1) have "transcriptsConsistent (snd (updateHeartbeat now iid st))"
    by (rule transcriptsConsistent_frame)
       (cases "map_of (instances st) iid";
        simp add: updateHeartbeat_def Let_def split_beta getTranscriptEvents_def)+
  with UpdateHeartbeat show ?thesis by simp
next
  case (RemoveInstance now iid)
  with assms show ?thesis by (simp add: transcriptsConsistent_removeInstance)
next
  case (StartSession now iid data)
  with assms show ?thesis by (simp add: transcriptsConsistent_startSession)
next
  case (UpdateSession now sid updates)
  with assms show ?thesis by (simp add: transcriptsConsistent_updateSession)
next
  case (EndSession now sid)
  with assms show ?thesis by (simp add: transcriptsConsistent_endSession)
next
  case (AddTranscriptEvent eid now data)
  with assms show ?thesis by (simp add: transcriptsConsistent_addTranscriptEvent)
next
  case (OnInstanceChange cb)
  from assms(1) have "transcriptsConsistent (onInstanceChange cb st)"
    by (rule transcriptsConsistent_frame) (simp_all add: onInstanceChange_def getTranscriptEvents_def)
  with OnInstanceChange show ?thesis by simp
next
  case (OnSessionChange cb)
  from assms(1) have "transcriptsConsistent (onSessionChange cb st)"
    by (rule transcriptsConsistent_frame) (simp_all add: onSessionChange_def getTranscriptEvents_def)
  with OnSessionChange show ?thesis by simp
next
  case (OnTranscriptEvent cb)
  from assms(1) have "transcriptsConsistent (onTranscriptEvent cb st)"
    by (rule transcriptsConsistent_frame) (simp_all add: onTranscriptEvent_def getTranscriptEvents_def)
  with OnTranscriptEvent show ?thesis by simp
next
  case (OffInstanceChange cb)
  from assms(1) have "transcriptsConsistent (offInstanceChange cb st)"
    by (rule transcriptsConsistent_frame) (simp_all add: offInstanceChange_def getTranscriptEvents_def)
  with OffInstanceChange show ?thesis by simp
next
  case (OffSessionChange cb)
  from assms(1) have "transcriptsConsistent (offSessionChange cb st)"
    by (rule transcriptsConsistent_frame) (simp_all add: offSessionChange_def getTranscriptEvents_def)
  with OffSessionChange show ?thesis by simp
next
  case (OffTranscriptEvent cb)
  from assms(1) have "transcriptsConsistent (offTranscriptEvent cb st)"
    by (rule transcriptsConsistent_frame) (simp_all add: offTranscriptEvent_def getTranscriptEvents_def)
  with OffTranscriptEvent show ?thesis by simp
qed

subsection \<open>Executions with restarts\<close>

lemma consistent_created:
  assumes "sessionsFile pm = []" and "transcriptsDir pm = []"
  shows "sessionsConsistent (createInstanceRegistry (Some pm))"
    and "transcriptsConsistent (createInstanceRegistry (Some pm))"
  using assms
  by (simp_all add: sessionsConsistent_def transcriptsConsistent_def createInstanceRegistry_def
      loadSessions_def loadAllTranscriptEvents_def loadTranscriptEvents_def
      readLines_def getTranscriptEvents_def ensureSourceIdSet_def Let_def)

lemma restart_fields [simp]:
  "persistence (restart st) = persistence st"
  "sessionListeners (restart st) = []"
  by (simp_all add: restart_def createInstanceRegistry_def Let_def split: option.splits)

lemma restart_restart: "restart (restart st) = restart st"
  by (simp add: restart_def [of "restart st"]) (simp add: restart_def)

lemma consistent_restart:
  assumes "sessionsConsistent st" and "transcriptsConsistent st"
  shows "sessions (restart st) = sessions st"
    and "getTranscriptEvents sid None (restart st) = getTranscriptEvents sid None st \<or>
         length (getTranscriptEvents sid None (restart st)) > MAX_EVENTS_PER_SESSION \<and>
         getTranscriptEvents sid None st =
           drop (length (getTranscriptEvents sid None (restart st)) - MAX_EVENTS_PER_SESSION)
             (getTranscriptEvents sid None (restart st))"
    and "ensureSourceIdSet sid (seenSourceIds (restart st)) = ensureSourceIdSet sid (seenSourceIds st)"
    and "ensureSourceIdSet sid (seenSourceIds (restart st)) =
           set (sourceIdList (getTranscriptEvents sid None (restart st)))"
    and "sessionsConsistent (restart st)"
    and "transcriptsConsistent (restart st)"
proof -
  from assms(2) obtain pm where c: "persistence st = Some pm"
    "distinct (map fst (transcriptsDir pm))"
    "\<forall>f \<in> set (transcriptsDir pm).
           snd f \<noteq> [] \<and> (\<exists>sid. safeId sid \<and> sid \<in> fst ` set (sessions st) \<and> fst f = sid @ ''.jsonl'')"
    "\<forall>sid. if safeId sid
           then getTranscriptEvents sid None st = loadTranscriptEvents pm sid \<or>
                getTranscriptEvents sid None st =
                  drop (length (loadTranscriptEvents pm sid) - MAX_EVENTS_PER_SESSION)
                    (loadTranscriptEvents pm sid)
           else getTranscriptEvents sid None st = []"
    "\<forall>sid. ensureSourceIdSet sid (seenSourceIds st) =
                  (if safeId sid then set (sourceIdList (loadTranscriptEvents pm sid)) else {})"
    by (rule transcriptsConsistentD)
  from assms(1) c(1) have s: "loadSessions pm = sessions st"
    "distinct (map fst (sessions st))" "\<forall>p \<in> set (sessions st). s_sessionId (snd p) = fst p"
    by (auto elim: sessionsConsistentD)
  from c(3) have ok: "\<forall>f \<in> set (transcriptsDir pm).
      snd f \<noteq> [] \<and> (\<exists>sid. safeId sid \<and> fst f = sid @ ''.jsonl'')"
    by blast
  note tr = transcripts_restart [OF c(1) ok c(2)]
  note sr = seen_restart [OF c(1) ok c(2)]
  show same: "sessions (restart st) = sessions st"
    using sessions_restart [OF c(1)] s(1) by simp
  show "getTranscriptEvents sid None (restart st) = getTranscriptEvents sid None st \<or>
         length (getTranscriptEvents sid None (restart st)) > MAX_EVENTS_PER_SESSION \<and>
         getTranscriptEvents sid None st =
           drop (length (getTranscriptEvents sid None (restart st)) - MAX_EVENTS_PER_SESSION)
             (getTranscriptEvents sid None (restart st))"
  proof (cases "safeId sid")
    case False
    with c(4) [THEN spec, of sid] show ?thesis by (simp add: tr)
  next
    case True
    with c(4) [THEN spec, of sid] consider
        "getTranscriptEvents sid None st = loadTranscriptEvents pm sid"
      | "getTranscriptEvents sid None st =
           drop (length (loadTranscriptEvents pm sid) - MAX_EVENTS_PER_SESSION) (loadTranscriptEvents pm sid)"
      by auto
    then show ?thesis
    proof cases
      case 1
      with True show ?thesis by (simp add: tr)
    next
      case 2
      with True show ?thesis
        by (cases "length (loadTranscriptEvents pm sid) > MAX_EVENTS_PER_SESSION") (simp_all add: tr)
    qed
  qed
  show "ensureSourceIdSet sid (seenSourceIds (restart st)) = ensureSourceIdSet sid (seenSourceIds st)"
    using c(5) by (simp add: sr)
  show "ensureSourceIdSet sid (seenSourceIds (restart st)) =
          set (sourceIdList (getTranscriptEvents sid None (restart st)))"
    by (simp add: sr tr)
  show "sessionsConsistent (restart st)"
  proof (rule sessionsConsistentI)
    show "persistence (restart st) = Some pm" using c(1) by simp
    show "loadSessions pm = sessions (restart st)" using same s(1) by simp
    show "distinct (map fst (sessions (restart st)))" using same s(2) by simp
    show "\<forall>p \<in> set (sessions (restart st)). s_sessionId (snd p) = fst p" using same s(3) by simp
    show "\<forall>cb \<in> set (sessionListeners (restart st)). \<forall>a. \<not> throws cb a" by simp
  qed
  show "transcriptsConsistent (restart st)"
  proof (rule transcriptsConsistentI)
    show "persistence (restart st) = Some pm" using c(1) by simp
    show "distinct (map fst (transcriptsDir pm))" by (rule c(2))
    show "\<forall>f \<in> set (transcriptsDir pm).
           snd f \<noteq> [] \<and>
           (\<exists>sid. safeId sid \<and> sid \<in> fst ` set (sessions (restart st)) \<and> fst f = sid @ ''.jsonl'')"
      using c(3) by (simp add: same)
    show "\<forall>sid. if safeId sid
           then getTranscriptEvents sid None (restart st) = loadTranscriptEvents pm sid \<or>
                getTranscriptEvents sid None (restart st) =
                  drop (length (loadTranscriptEvents pm sid) - MAX_EVENTS_PER_SESSION)
                    (loadTranscriptEvents pm sid)
           else getTranscriptEvents sid None (restart st) = []"
      by (simp add: tr)
    show "\<forall>sid. ensureSourceIdSet sid (seenSourceIds (restart st)) =
                  (if safeId sid then set (sourceIdList (loadTranscriptEvents pm sid)) else {})"
      by (simp add: sr)
  qed
qed

lemma consistent_run:
  "admissible steps st \<Longrightarrow> sessionsConsistent st \<Longrightarrow> transcriptsConsistent st \<Longrightarrow>
   sessionsConsistent (run steps st) \<and> transcriptsConsistent (run steps st)"
proof (induction steps arbitrary: st)
  case Nil
  then show ?case by (simp add: run_def)
next
  case (Cons step steps)
  show ?case
  proof (cases step)
    case (Call op)
    with Cons.prems have "sessionsConsistent (exec op st)" "transcriptsConsistent (exec op st)"
      "admissible steps (exec op st)"
      by (simp_all add: sessionsConsistent_exec transcriptsConsistent_exec)
    then have "sessionsConsistent (run steps (exec op st)) \<and> transcriptsConsistent (run steps (exec op st))"
      by (intro Cons.IH)
    with Call show ?thesis by (simp add: run_def)
  next
    case Restart
    with Cons.prems have "sessionsConsistent (restart st)" "transcriptsConsistent (restart st)"
      "admissible steps (restart st)"
      by (simp_all add: consistent_restart)
    then have "sessionsConsistent (run steps (restart st)) \<and> transcriptsConsistent (run steps (restart st))"
      by (intro Cons.IH)
    with Restart show ?thesis by (simp add: run_def)
  qed
qed

lemma updateSession_keys:
  "fst ` set (sessions (snd (updateSession now sid updates st))) = fst ` set (sessions st)"
proof (cases "map_of (sessions st) sid")
  case None
  then show ?thesis by (simp add: updateSession_def)
next
  case (Some s0)
  then have "sid \<in> fst ` set (sessions st)"
    using map_of_eq_None_iff [of "sessions st" sid] by simp
  with Some show ?thesis
    by (auto simp add: updateSession_def Let_def split_beta dom_update)
qed

text \<open>
  C3 (amended). Take any execution that starts on an empty data directory and is made of
  calls of the registry and restarts of the process, in which the session listeners return
  normally, no session update renames its session or has a key whose value is \<^verbatim>\<open>undefined\<close>,
  and every submitted transcript event belongs to a started session whose identifier is a
  safe file name and whose transcript file has a name that the file system takes. Stopping
  the process and creating the registry again on the data directory then gives: the same
  session map (same identifiers, in the same order, with the same fields); for every session
  either the transcript list held before the restart or, when the log of the session holds
  more than \<open>MAX_EVENTS_PER_SESSION\<close> events, a longer list of which the one held before the
  restart is the last \<open>MAX_EVENTS_PER_SESSION\<close> events; and for every session a set of seen
  source ids that is the one held before the restart and holds exactly the source ids of
  the replayed events. The set is part of the registry that \<^verbatim>\<open>createInstanceRegistry\<close>
  returns, so it is in place before any call can reach the registry. A second restart gives
  the registry of the first.
\<close>

theorem replay_rebuilds_registry:
  assumes "sessionsFile pm = []" and "transcriptsDir pm = []"
    and "admissible steps (createInstanceRegistry (Some pm))"
  shows "sessions (restart (run steps (createInstanceRegistry (Some pm)))) =
           sessions (run steps (createInstanceRegistry (Some pm))) \<and>
         (\<forall>sid. getTranscriptEvents sid None (restart (run steps (createInstanceRegistry (Some pm)))) =
                  getTranscriptEvents sid None (run steps (createInstanceRegistry (Some pm))) \<or>
                length (getTranscriptEvents sid None (restart (run steps (createInstanceRegistry (Some pm))))) >
                  MAX_EVENTS_PER_SESSION \<and>
                getTranscriptEvents sid None (run steps (createInstanceRegistry (Some pm))) =
                  drop (length (getTranscriptEvents sid None
                                  (restart (run steps (createInstanceRegistry (Some pm))))) -
                        MAX_EVENTS_PER_SESSION)
                    (getTranscriptEvents sid None
                       (restart (run steps (createInstanceRegistry (Some pm)))))) \<and>
         (\<forall>sid. ensureSourceIdSet sid
                  (seenSourceIds (restart (run steps (createInstanceRegistry (Some pm))))) =
                ensureSourceIdSet sid
                  (seenSourceIds (run steps (createInstanceRegistry (Some pm))))) \<and>
         (\<forall>sid. ensureSourceIdSet sid
                  (seenSourceIds (restart (run steps (createInstanceRegistry (Some pm))))) =
                set (sourceIdList
                       (getTranscriptEvents sid None
                          (restart (run steps (createInstanceRegistry (Some pm))))))) \<and>
         restart (restart (run steps (createInstanceRegistry (Some pm)))) =
           restart (run steps (createInstanceRegistry (Some pm)))"
proof -
  let ?st = "run steps (createInstanceRegistry (Some pm))"
  from consistent_run [OF assms(3) consistent_created [OF assms(1,2)]]
  have c: "sessionsConsistent ?st" "transcriptsConsistent ?st" by simp_all
  note r = consistent_restart [OF c]
  from r(1) r(2) r(3) r(4) restart_restart [of ?st] show ?thesis
    by (intro conjI allI)
qed

subsection \<open>A run with a restart in the middle\<close>

lemma safeId_s1: "safeId ''s1''"
  by (simp add: safeId_def safeChar_def)

lemma accepts_frame [simp]:
  "accepts (snd (startSession now iid data st)) S = accepts st S"
  "accepts (snd (updateSession now sid updates st)) S = accepts st S"
  "accepts (snd (endSession now sid st)) S = accepts st S"
  "accepts (onSessionChange cb st) S = accepts st S"
  "accepts (restart st) S = accepts st S"
proof -
  show "accepts (snd (startSession now iid data st)) S = accepts st S"
    by (cases "map_of (sessions st) (s_sessionId data)"; cases "persistence st")
       (simp_all add: startSession_def Let_def split_beta accepts_def withPersistence_def
          persistSessionStart_def persistSessionUpdate_def)
  show "accepts (snd (updateSession now sid updates st)) S = accepts st S"
    by (cases "map_of (sessions st) sid"; cases "persistence st")
       (simp_all add: updateSession_def Let_def split_beta accepts_def withPersistence_def
          persistSessionUpdate_def)
  show "accepts (snd (endSession now sid st)) S = accepts st S"
    by (cases "map_of (sessions st) sid"; cases "persistence st")
       (simp_all add: endSession_def Let_def split_beta accepts_def withPersistence_def
          persistSessionEnd_def)
  show "accepts (onSessionChange cb st) S = accepts st S"
    by (simp add: onSessionChange_def accepts_def)
  show "accepts (restart st) S = accepts st S"
    by (simp add: accepts_def)
qed

lemma onSessionChange_sessions [simp]: "sessions (onSessionChange cb st) = sessions st"
  by (simp add: onSessionChange_def)

lemma admissible_append:
  "admissible (xs @ ys) st \<longleftrightarrow> admissible xs st \<and> admissible ys (run xs st)"
proof (induction xs arbitrary: st)
  case Nil
  show ?case by (simp add: run_def)
next
  case (Cons x xs)
  show ?case
    by (cases x) (simp_all add: Cons.IH run_def)
qed

lemma accepts_created: "accepts (createInstanceRegistry (Some emptyDataDir)) ''s1''"
  by (simp add: accepts_def createInstanceRegistry_def emptyDataDir_def Let_def getTranscriptFile_def)

lemma replaySteps_admissible:
  "admissible replaySteps (createInstanceRegistry (Some emptyDataDir))"
proof -
  let ?init = "createInstanceRegistry (Some emptyDataDir)"
  let ?pre = "[Call (OnSessionChange (quietListener 1)),
      Call (StartSession ''t1'' ''A'' sess0),
      Call (AddTranscriptEvent ''e1'' ''t2'' dupEvent),
      Call (UpdateSession ''t3'' ''s1'' (noUpdates\<lparr> u_title := Some ''build fix'' \<rparr>))]"
  let ?post = "[Restart,
      Call (OnSessionChange (quietListener 1)),
      Call (AddTranscriptEvent ''e2'' ''t4'' dupEvent),
      Call (AddTranscriptEvent ''e3'' ''t5'' ev0),
      Call (EndSession ''t6'' ''s1'')]"
  have split: "replaySteps = ?pre @ ?post"
    by (simp add: replaySteps_def)
  have pre: "admissible ?pre ?init"
    by (simp add: quietListener_def noUpdates_def stringifyUpdates_def accepts_created
        startSession_frame(3) sess0_def dupEvent_def ev0_def safeId_s1)
  have keys: "fst ` set (sessions (run ?pre ?init)) = {''s1''}"
    by (simp add: run_def updateSession_keys startSession_frame(3) sess0_def
        createInstanceRegistry_def emptyDataDir_def loadSessions_def Let_def)
  have "sessionsConsistent (run ?pre ?init) \<and> transcriptsConsistent (run ?pre ?init)"
    by (rule consistent_run [OF pre consistent_created]) (simp_all add: emptyDataDir_def)
  then have "sessions (restart (run ?pre ?init)) = sessions (run ?pre ?init)"
    by (simp add: consistent_restart(1))
  with keys have keys': "fst ` set (sessions (restart (run ?pre ?init))) = {''s1''}"
    by simp
  have acc: "accepts (run ?pre ?init) ''s1''"
    by (simp add: run_def accepts_created)
  have post: "admissible ?post (run ?pre ?init)"
    using keys' acc
    by (simp add: quietListener_def dupEvent_def ev0_def safeId_s1)
  from pre post show ?thesis
    unfolding split admissible_append by simp
qed

theorem replay_rebuilds_registry_witness:
  "sessionsFile emptyDataDir = [] \<and> transcriptsDir emptyDataDir = [] \<and>
   admissible replaySteps (createInstanceRegistry (Some emptyDataDir)) \<and>
   sessions (restart (run replaySteps (createInstanceRegistry (Some emptyDataDir)))) =
     sessions (run replaySteps (createInstanceRegistry (Some emptyDataDir))) \<and>
   (\<forall>sid. getTranscriptEvents sid None (restart (run replaySteps (createInstanceRegistry (Some emptyDataDir)))) =
            getTranscriptEvents sid None (run replaySteps (createInstanceRegistry (Some emptyDataDir))) \<or>
          length (getTranscriptEvents sid None
                    (restart (run replaySteps (createInstanceRegistry (Some emptyDataDir))))) >
            MAX_EVENTS_PER_SESSION \<and>
          getTranscriptEvents sid None (run replaySteps (createInstanceRegistry (Some emptyDataDir))) =
            drop (length (getTranscriptEvents sid None
                            (restart (run replaySteps (createInstanceRegistry (Some emptyDataDir))))) -
                  MAX_EVENTS_PER_SESSION)
              (getTranscriptEvents sid None
                 (restart (run replaySteps (createInstanceRegistry (Some emptyDataDir)))))) \<and>
   (\<forall>sid. ensureSourceIdSet sid
            (seenSourceIds (restart (run replaySteps (createInstanceRegistry (Some emptyDataDir))))) =
          ensureSourceIdSet sid
            (seenSourceIds (run replaySteps (createInstanceRegistry (Some emptyDataDir))))) \<and>
   (\<forall>sid. ensureSourceIdSet sid
            (seenSourceIds (restart (run replaySteps (createInstanceRegistry (Some emptyDataDir))))) =
          set (sourceIdList
                 (getTranscriptEvents sid None
                    (restart (run replaySteps (createInstanceRegistry (Some emptyDataDir))))))) \<and>
   restart (restart (run replaySteps (createInstanceRegistry (Some emptyDataDir)))) =
     restart (run replaySteps (createInstanceRegistry (Some emptyDataDir)))"
proof -
  have e: "sessionsFile emptyDataDir = []" "transcriptsDir emptyDataDir = []"
    by (simp_all add: emptyDataDir_def)
  note adm = replaySteps_admissible
  note t = replay_rebuilds_registry [OF e adm]
  show ?thesis
    by (rule conjI [OF e(1) conjI [OF e(2) conjI [OF adm t]]])
qed

subsection \<open>Executions that replay does not rebuild\<close>

lemmas registry_eval =
  run_def restart_def createInstanceRegistry_def emptyDataDir_def loadSessions_def
  loadAllTranscriptEvents_def loadTranscriptEvents_def readLines_def getTranscriptFile_def
  getTranscriptEvents_def Let_def startSession_def updateSession_def notifySession_def
  withPersistence_def persistSessionStart_def persistSessionUpdate_def persistSessionEnd_def
  onSessionChange_def setAdd_def assign_def stringifyUpdates_def noUpdates_def sess0_def ev0_def
  throwingListener_def quietListener_def endsWith_def safeChar_def

lemma throwingSteps_eval:
  "map fst (sessions (run throwingSteps (createInstanceRegistry (Some emptyDataDir)))) = [''s1'']"
  "sessions (restart (run throwingSteps (createInstanceRegistry (Some emptyDataDir)))) = []"
  by (simp_all add: throwingSteps_def registry_eval)

lemma undefinedSteps_eval:
  "map_option s_model (map_of (sessions (run undefinedSteps (createInstanceRegistry (Some emptyDataDir)))) ''s1'') =
     Some None"
  "map_option s_model
     (map_of (sessions (restart (run undefinedSteps (createInstanceRegistry (Some emptyDataDir))))) ''s1'') =
     Some (Some ''gpt'')"
  by (simp_all add: undefinedSteps_def registry_eval)

lemma renameSteps_eval:
  "map_option s_status (map_of (sessions (run renameSteps (createInstanceRegistry (Some emptyDataDir)))) ''s1'') =
     Some StatusIdle"
  "map_option s_status
     (map_of (sessions (restart (run renameSteps (createInstanceRegistry (Some emptyDataDir))))) ''s1'') =
     Some StatusActive"
  by (simp_all add: renameSteps_def registry_eval registerInstance_def removeInstance_def
      notifyInstance_def instA_def)

lemma unsafeIdSteps_eval:
  "length (getTranscriptEvents ''a.b'' None
             (run unsafeIdSteps (createInstanceRegistry (Some emptyDataDir)))) = 1"
  "getTranscriptEvents ''a.b'' None
     (restart (run unsafeIdSteps (createInstanceRegistry (Some emptyDataDir)))) = []"
  by (simp_all add: unsafeIdSteps_def registry_eval addTranscriptEvent_cases accepts_def
      remembered_def logged_def called_def ensureSourceIdSet_def evict_drop
      MAX_EVENTS_PER_SESSION_def)

lemma unstartedSteps_eval:
  "getTranscriptEvents ''s1'' None
     (run unstartedSteps (createInstanceRegistry (Some emptyDataDir))) = []"
  "length (getTranscriptEvents ''s1'' None
             (restart (run unstartedSteps (createInstanceRegistry (Some emptyDataDir))))) = 1"
  by (simp_all add: unstartedSteps_def registry_eval addTranscriptEvent_cases accepts_def
      remembered_def logged_def called_def ensureSourceIdSet_def evict_drop
      MAX_EVENTS_PER_SESSION_def)

lemma created_no_transcripts:
  "transcriptsDir pm = [] \<Longrightarrow> getTranscriptEvents sid None (createInstanceRegistry (Some pm)) = []"
  by (simp add: createInstanceRegistry_def Let_def loadAllTranscriptEvents_def getTranscriptEvents_def)

lemma longIdSteps_eval:
  "length (getTranscriptEvents longId None
             (run longIdSteps (createInstanceRegistry (Some emptyDataDir)))) = 1"
  "getTranscriptEvents longId None
     (restart (run longIdSteps (createInstanceRegistry (Some emptyDataDir)))) = []"
proof -
  let ?init = "createInstanceRegistry (Some emptyDataDir)"
  let ?st1 = "snd (startSession ''t0'' ''A'' (sess0\<lparr> s_sessionId := longId \<rparr>) ?init)"
  let ?e = "ev0\<lparr> e_sessionId := longId, e_eventId := ''e1'', e_ts := ''t1'' \<rparr>"
  have r: "\<not> accepts ?st1 longId"
    by (simp add: longId_refused)
  have s: "run longIdSteps ?init = remembered ?e ?st1"
    using r by (simp add: longIdSteps_def run_def addTranscriptEvent_cases ev0_def)
  have i: "getTranscriptEvents longId None ?init = []"
    by (rule created_no_transcripts) (simp add: emptyDataDir_def)
  have t: "getTranscriptEvents longId None ?st1 = []"
    using i by (simp add: getTranscriptEvents_def startSession_frame(4) update_conv' split: option.splits)
  show "length (getTranscriptEvents longId None (run longIdSteps ?init)) = 1"
    by (simp add: s remembered_transcripts t evict_drop MAX_EVENTS_PER_SESSION_def)
  have "map_option transcriptsDir (persistence ?init) = Some []"
    by (simp add: createInstanceRegistry_def emptyDataDir_def Let_def)
  then have "map_option transcriptsDir (persistence (remembered ?e ?st1)) = Some []"
    by (simp add: startSession_frame(2))
  then obtain pm where pm: "persistence (remembered ?e ?st1) = Some pm" "transcriptsDir pm = []"
    by (cases "persistence (remembered ?e ?st1)") auto
  show "getTranscriptEvents longId None (restart (run longIdSteps ?init)) = []"
    unfolding s restart_def pm(1) by (rule created_no_transcripts [OF pm(2)])
qed

lemma run_submit:
  "run (map (\<lambda>(eid, now, data). Call (AddTranscriptEvent eid now data)) subs) st = submitAll subs st"
proof (induction subs arbitrary: st)
  case Nil
  show ?case by (simp add: run_def)
next
  case (Cons sub subs)
  obtain eid now data where sub: "sub = (eid, now, data)" by (cases sub)
  from Cons.IH [of "snd (addTranscriptEvent eid now data st)"] sub show ?case
    by (simp add: run_def)
qed

lemma admissible_submit:
  assumes "safeId S" and "S \<in> fst ` set (sessions st)" and "accepts st S"
    and "\<forall>sub \<in> set subs. e_sessionId (snd (snd sub)) = S"
  shows "admissible (map (\<lambda>(eid, now, data). Call (AddTranscriptEvent eid now data)) subs) st"
  using assms(2,3,4)
proof (induction subs arbitrary: st)
  case Nil
  show ?case by simp
next
  case (Cons sub subs)
  obtain eid now data where sub: "sub = (eid, now, data)" by (cases sub)
  from Cons.prems sub have S: "e_sessionId data = S" by simp
  have "admissible (map (\<lambda>(eid, now, data). Call (AddTranscriptEvent eid now data)) subs)
          (snd (addTranscriptEvent eid now data st))"
    using Cons.prems by (intro Cons.IH) simp_all
  with Cons.prems(1,2) S assms(1) sub show ?case by simp
qed

lemma startedRegistry:
  "getTranscriptEvents ''s1'' None (snd (startSession ''t0'' ''A'' sess0 (createInstanceRegistry (Some emptyDataDir)))) = []"
  "seenSourceIds (snd (startSession ''t0'' ''A'' sess0 (createInstanceRegistry (Some emptyDataDir)))) = []"
  "map_option (\<lambda>pm. loadTranscriptEvents pm ''s1'')
     (persistence (snd (startSession ''t0'' ''A'' sess0 (createInstanceRegistry (Some emptyDataDir))))) = Some []"
  "fst ` set (sessions (snd (startSession ''t0'' ''A'' sess0 (createInstanceRegistry (Some emptyDataDir))))) = {''s1''}"
  by (simp_all add: getTranscriptEvents_def createInstanceRegistry_def emptyDataDir_def loadSessions_def
      loadAllTranscriptEvents_def loadTranscriptEvents_def readLines_def Let_def startSession_def
      sess0_def notifySession_def persistSessionStart_def withPersistence_def)

lemma overflowSteps_eval:
  "admissible overflowSteps (createInstanceRegistry (Some emptyDataDir))"
  "length (getTranscriptEvents ''s1'' None
             (run overflowSteps (createInstanceRegistry (Some emptyDataDir)))) = 10000"
  "length (getTranscriptEvents ''s1'' None
             (restart (run overflowSteps (createInstanceRegistry (Some emptyDataDir))))) = 10001"
proof -
  let ?init = "createInstanceRegistry (Some emptyDataDir)"
  let ?started = "snd (startSession ''t0'' ''A'' sess0 ?init)"
  let ?st = "run overflowSteps ?init"
  have "?st = run (map (\<lambda>(eid, now, data). Call (AddTranscriptEvent eid now data)) (submissions 10001)) ?started"
    by (simp add: overflowSteps_def run_def)
  then have st: "?st = submitAll (submissions 10001) ?started"
    by (simp only: run_submit)
  have acc: "accepts ?started ''s1''"
    by (simp add: accepts_created)
  have "admissible (map (\<lambda>(eid, now, data). Call (AddTranscriptEvent eid now data)) (submissions 10001))
          ?started"
    by (rule admissible_submit [OF safeId_s1 _ acc submissions_session]) (simp add: startedRegistry(4))
  then show adm: "admissible overflowSteps ?init"
    by (simp add: overflowSteps_def)
  have h1: "submissions 10001 \<noteq> [] \<or>
      length (getTranscriptEvents ''s1'' None ?started) \<le> MAX_EVENTS_PER_SESSION"
    by (simp add: startedRegistry)
  have h4: "set (sourceIdList (map (\<lambda>sub. snd (snd sub)) (submissions 10001))) \<inter>
              ensureSourceIdSet ''s1'' (seenSourceIds ?started) = {}"
    by (simp add: startedRegistry ensureSourceIdSet_def)
  note w = submitAll_window [OF h1 submissions_session submissions_distinct h4]
  show "length (getTranscriptEvents ''s1'' None ?st) = 10000"
    unfolding st using w
    by (simp add: startedRegistry(1) length_submissions MAX_EVENTS_PER_SESSION_def)
  have e: "sessionsFile emptyDataDir = []" "transcriptsDir emptyDataDir = []"
    by (simp_all add: emptyDataDir_def)
  from consistent_run [OF adm consistent_created [OF e]]
  have "transcriptsConsistent ?st" by simp
  then obtain pm where c: "persistence ?st = Some pm"
    "distinct (map fst (transcriptsDir pm))"
    "\<forall>f \<in> set (transcriptsDir pm).
           snd f \<noteq> [] \<and> (\<exists>sid. safeId sid \<and> sid \<in> fst ` set (sessions ?st) \<and> fst f = sid @ ''.jsonl'')"
    by (rule transcriptsConsistentD)
  from c(3) have ok: "\<forall>f \<in> set (transcriptsDir pm).
      snd f \<noteq> [] \<and> (\<exists>sid. safeId sid \<and> fst f = sid @ ''.jsonl'')"
    by blast
  have "map_option (\<lambda>pm. loadTranscriptEvents pm ''s1'') (persistence ?st) =
          Some (map stamp (submissions 10001))"
  proof -
    obtain pm0 where p0: "persistence ?started = Some pm0" "loadTranscriptEvents pm0 ''s1'' = []"
      using startedRegistry(3) by (cases "persistence ?started") auto
    from w acc show ?thesis unfolding st by (simp add: p0)
  qed
  with c(1) have "loadTranscriptEvents pm ''s1'' = map stamp (submissions 10001)"
    by simp
  then show "length (getTranscriptEvents ''s1'' None (restart ?st)) = 10001"
    by (simp add: transcripts_restart [OF c(1) ok c(2)] safeId_s1 length_submissions)
qed

text \<open>
  Executions in which the registry created again from the data directory differs from the one
  before the restart, all from an empty data directory. Bounded retention: a session is
  started and 10,001 events with distinct source ids are submitted to it; every call is
  replayable, the registry holds 10,000 events for the session before the restart and 10,001
  after it. A transcript file name that the file system refuses: the event of a session whose
  identifier has 250 letters is in memory and not in the log. A direct call of
  \<^verbatim>\<open>updateSession\<close> with \<^verbatim>\<open>{ model: undefined }\<close>: the model is cleared in memory and kept
  by replay. A session listener that throws: the session it was told of is in memory and not
  in the log. A session renamed by an update and then ended by \<^verbatim>\<open>removeInstance\<close>: idle in
  memory, active after replay. A session identifier that the sanitiser changes: its event is
  replayed under the sanitised identifier. An event submitted before its session is started:
  dropped from memory by \<^verbatim>\<open>startSession\<close>, replayed from the log.
\<close>

theorem replay_differs_from_memory:
  "admissible overflowSteps (createInstanceRegistry (Some emptyDataDir)) \<and>
   length (getTranscriptEvents ''s1'' None
             (run overflowSteps (createInstanceRegistry (Some emptyDataDir)))) = 10000 \<and>
   length (getTranscriptEvents ''s1'' None
             (restart (run overflowSteps (createInstanceRegistry (Some emptyDataDir))))) = 10001 \<and>
   length (getTranscriptEvents longId None
             (run longIdSteps (createInstanceRegistry (Some emptyDataDir)))) = 1 \<and>
   getTranscriptEvents longId None
     (restart (run longIdSteps (createInstanceRegistry (Some emptyDataDir)))) = [] \<and>
   map_option s_model
     (map_of (sessions (run undefinedSteps (createInstanceRegistry (Some emptyDataDir)))) ''s1'') =
     Some None \<and>
   map_option s_model
     (map_of (sessions (restart (run undefinedSteps (createInstanceRegistry (Some emptyDataDir))))) ''s1'') =
     Some (Some ''gpt'') \<and>
   map fst (sessions (run throwingSteps (createInstanceRegistry (Some emptyDataDir)))) = [''s1''] \<and>
   sessions (restart (run throwingSteps (createInstanceRegistry (Some emptyDataDir)))) = [] \<and>
   map_option s_status
     (map_of (sessions (run renameSteps (createInstanceRegistry (Some emptyDataDir)))) ''s1'') =
     Some StatusIdle \<and>
   map_option s_status
     (map_of (sessions (restart (run renameSteps (createInstanceRegistry (Some emptyDataDir))))) ''s1'') =
     Some StatusActive \<and>
   length (getTranscriptEvents ''a.b'' None
             (run unsafeIdSteps (createInstanceRegistry (Some emptyDataDir)))) = 1 \<and>
   getTranscriptEvents ''a.b'' None
     (restart (run unsafeIdSteps (createInstanceRegistry (Some emptyDataDir)))) = [] \<and>
   getTranscriptEvents ''s1'' None
     (run unstartedSteps (createInstanceRegistry (Some emptyDataDir))) = [] \<and>
   length (getTranscriptEvents ''s1'' None
             (restart (run unstartedSteps (createInstanceRegistry (Some emptyDataDir))))) = 1"
  by (intro conjI overflowSteps_eval longIdSteps_eval undefinedSteps_eval throwingSteps_eval
      renameSteps_eval unsafeIdSteps_eval unstartedSteps_eval)

end
